theory Spec2Isabelle
  imports Complex_Main
begin

section \<open>JavaScript values used by the widget\<close>

text \<open>
  A JavaScript \<open>number\<close> supplied by the caller is any IEEE double: a finite value, one of
  the two infinities, or NaN. Finite values are idealised as reals (rounding is not
  modelled; signed zero is one value). \<open>num_lt\<close> and \<open>num_le\<close> are the operators
  \<^verbatim>\<open><\<close> and \<^verbatim>\<open><=\<close>: every comparison with NaN is false.
\<close>

datatype number = NaN | NegInfinity | Finite real | Infinity

fun num_lt :: "number \<Rightarrow> number \<Rightarrow> bool" where
  "num_lt NaN b = False"
| "num_lt a NaN = False"
| "num_lt Infinity b = False"
| "num_lt a NegInfinity = False"
| "num_lt NegInfinity b = True"
| "num_lt a Infinity = True"
| "num_lt (Finite a) (Finite b) = (a < b)"

definition num_le :: "number \<Rightarrow> number \<Rightarrow> bool" where
  "num_le a b = (a \<noteq> NaN \<and> b \<noteq> NaN \<and> \<not> num_lt b a)"

text \<open>
  \<open>Math.min\<close> and \<open>Math.max\<close> as ECMAScript defines them: the running result starts
  at \<open>+Infinity\<close> (\<open>-Infinity\<close> for max), a NaN argument makes the result NaN, and a
  smaller (larger) argument replaces the running result. The source spreads the whole
  dataset into the argument list; the limit an engine puts on the number of arguments is
  not modelled.
\<close>

fun min_loop :: "number \<Rightarrow> number list \<Rightarrow> number" where
  "min_loop lowest [] = lowest"
| "min_loop lowest (n # ns) =
     (if n = NaN then NaN else min_loop (if num_lt n lowest then n else lowest) ns)"

definition Math_min :: "number list \<Rightarrow> number" where
  "Math_min coerced = min_loop Infinity coerced"

fun max_loop :: "number \<Rightarrow> number list \<Rightarrow> number" where
  "max_loop highest [] = highest"
| "max_loop highest (n # ns) =
     (if n = NaN then NaN else max_loop (if num_lt highest n then n else highest) ns)"

definition Math_max :: "number list \<Rightarrow> number" where
  "Math_max coerced = max_loop NegInfinity coerced"

text \<open>
  \<open>String.prototype.toUpperCase\<close>, on the ASCII letters: a lower-case letter is
  replaced by its capital, every other character stays. Strings are byte lists here, so
  the Unicode case mappings outside ASCII are not modelled; the theorems below use only
  the equation \<open>toUpperCase c = code\<close> of the strings they talk about.
\<close>

definition toUpperCase_char :: "char \<Rightarrow> char" where
  "toUpperCase_char c =
     (case map_of (zip ''abcdefghijklmnopqrstuvwxyz'' ''ABCDEFGHIJKLMNOPQRSTUVWXYZ'') c of
        Some u \<Rightarrow> u
      | None \<Rightarrow> c)"

definition toUpperCase :: "string \<Rightarrow> string" where
  "toUpperCase s = map toUpperCase_char s"

text \<open>
  \<open>Object.fromEntries\<close>: the entries are written into an empty object in order, so a
  later entry with the same key replaces an earlier one. Reading a key that was never
  written gives \<open>undefined\<close>, modelled as \<open>None\<close> (the keys read below are ISO codes in
  upper case, none of which names a property of \<open>Object.prototype\<close>).
\<close>

definition Object_fromEntries :: "(string \<times> 'v) list \<Rightarrow> (string \<rightharpoonup> 'v)" where
  "Object_fromEntries entries = foldl (\<lambda>obj (k, v). obj(k \<mapsto> v)) Map.empty entries"

section \<open>Data binding (\<open>WorldMap\<close>, lines 62 to 99 of both source files)\<close>

text \<open>
  A \<open>DataItem\<close> carries a country code and a value of type \<open>number | string\<close>. The field
  \<open>value\<close> of the source is called \<open>dataValue\<close> here.
\<close>

datatype jsvalue = NumberV number | StringV string

record DataItem =
  country :: string
  dataValue :: jsvalue

text \<open>
  \<^verbatim>\<open>function toValue({ value }) { return typeof value === "string" ? 0 : value; }\<close>
\<close>

definition toValue :: "DataItem \<Rightarrow> number" where
  "toValue d = (case dataValue d of StringV s \<Rightarrow> Finite 0 | NumberV n \<Rightarrow> n)"

definition countryValueMap :: "DataItem list \<Rightarrow> (string \<rightharpoonup> jsvalue)" where
  "countryValueMap data =
     Object_fromEntries (map (\<lambda>d. (toUpperCase (country d), dataValue d)) data)"

text \<open>
  The constants \<open>minValue\<close> and \<open>maxValue\<close> of \<open>WorldMap\<close>; the suffix keeps them apart
  from the fields of the same name in \<open>CountryContext\<close>.
\<close>

definition minValue_of :: "DataItem list \<Rightarrow> number" where
  "minValue_of data = Math_min (map toValue data)"

definition maxValue_of :: "DataItem list \<Rightarrow> number" where
  "maxValue_of data = Math_max (map toValue data)"

text \<open>
  An entry of the bundled geometry table \<open>geoData.features\<close>: \<open>I\<close> is the ISO code and
  \<open>N\<close> the display name (the coordinates \<open>C\<close> feed only the path generator). The table
  itself is not part of the sources at hand, so it is a parameter of \<open>regions\<close>.
\<close>

record Feature =
  feature_I :: string
  feature_N :: string

record CountryContext =
  countryCode :: string
  countryValue :: "jsvalue option"
  countryName :: string
  color :: string
  minValue :: number
  maxValue :: number
  prefix :: string
  suffix :: string

text \<open>
  The context object built for one feature inside \<open>geoData.features.map\<close>; \<open>col\<close>,
  \<open>valuePrefix\<close> and \<open>valueSuffix\<close> are the props of the same name.
\<close>

definition context_of :: "DataItem list \<Rightarrow> string \<Rightarrow> string \<Rightarrow> string \<Rightarrow> Feature \<Rightarrow> CountryContext" where
  "context_of data col valuePrefix valueSuffix feature =
     \<lparr> countryCode = feature_I feature,
       countryValue = countryValueMap data (feature_I feature),
       countryName = feature_N feature,
       color = col,
       minValue = minValue_of data,
       maxValue = maxValue_of data,
       prefix = valuePrefix,
       suffix = valueSuffix \<rparr>"

definition regions :: "Feature list \<Rightarrow> DataItem list \<Rightarrow> string \<Rightarrow> string \<Rightarrow> string \<Rightarrow> CountryContext list" where
  "regions features data col valuePrefix valueSuffix =
     map (context_of data col valuePrefix valueSuffix) features"

section \<open>Interaction controller (\<open>eventHandlers\<close>, lines 132 to 199)\<close>

text \<open>
  The repository holds the widget twice. \<^verbatim>\<open>src/lib/src/index.tsx\<close> keeps the
  translation in two \<open>useState\<close> cells and adds the distance from the previous pointer
  position on every move (suffix \<open>_inc\<close> below); \<^verbatim>\<open>src/unnamed/part_000\<close> keeps
  it in a \<open>useRef\<close> cell and recomputes it on every move from a snapshot taken at
  pointer-down (suffix \<open>_snap\<close>). The cells \<open>scale\<close>, \<open>cursor\<close>, \<open>isDragging\<close> and
  \<open>dragStart\<close> exist in both and form the common part of the state record. The handlers
  are attached to the container when the prop \<open>richInteraction\<close> is set.

  A handler is created by a render and reads the \<open>useState\<close> cells as that render saw
  them (its closure); what it writes goes to the cells and is seen by the handlers of
  the next render. A \<open>useRef\<close> cell is read and written in place. The handlers with the
  suffix \<open>_closure\<close> model this: they take the state of the render that created them
  and the cells as they are now, and return the cells after the handler.

  Pointer coordinates, bounding boxes and the controller's own numbers are finite
  doubles. They are modelled as reals, and every arithmetic operation of a \<open>_closure\<close>
  handler rounds its result with a function \<open>rd\<close>: \<open>fl\<close> for the double arithmetic of
  JavaScript, \<open>exact\<close> for arithmetic without rounding.

  The handlers without that suffix are the same handlers on a component that has
  rendered since the last write (closure and cells agree), in exact arithmetic; the
  lemmas named \<open>_closure_same\<close> below say so.
\<close>

subsection \<open>Arithmetic\<close>

text \<open>
  \<open>fl\<close> rounds a real to the nearest double (a significand of 53 bits, ties to the
  even significand, gradual underflow below \<open>2 powi -1022\<close>). The exponent has no upper
  limit here: a result of magnitude \<open>2 ^ 1024\<close> or more, which JavaScript turns into an
  infinity, is outside the model.
\<close>

definition round_even :: "real \<Rightarrow> int" where
  "round_even y =
     (let n = \<lfloor>y\<rfloor>; d = y - of_int n
      in if d < 1 / 2 then n else if 1 / 2 < d then n + 1 else if even n then n else n + 1)"

definition fl :: "real \<Rightarrow> real" where
  "fl x =
     (if x = 0 then 0
      else
        let e = max \<lfloor>log 2 \<bar>x\<bar>\<rfloor> (- 1022);
            ulp = 2 powi (e - 52)
        in ulp * of_int (round_even (x / ulp)))"

definition exact :: "real \<Rightarrow> real" where
  "exact x = x"

subsection \<open>State\<close>

record Point =
  pt_x :: real
  pt_y :: real

record DOMRect =
  rect_left :: real
  rect_top :: real

text \<open>
  What a handler reads from its \<open>React.MouseEvent\<close>: the client coordinates and, for
  the double click, \<open>e.currentTarget.getBoundingClientRect()\<close>.
\<close>

record MouseEvent =
  clientX :: real
  clientY :: real
  currentTarget_rect :: DOMRect

record Controller =
  scale :: real
  cursor :: string
  isDragging :: bool
  dragStart :: Point

record Controller_inc = Controller +
  translateX :: real
  translateY :: real

record Controller_snap = Controller +
  translate :: Point
  initialTranslate :: Point

definition initial_inc :: Controller_inc where
  "initial_inc =
     \<lparr> scale = 1, cursor = ''default'', isDragging = False,
       dragStart = \<lparr>pt_x = 0, pt_y = 0\<rparr>, translateX = 0, translateY = 0 \<rparr>"

definition initial_snap :: Controller_snap where
  "initial_snap =
     \<lparr> scale = 1, cursor = ''default'', isDragging = False,
       dragStart = \<lparr>pt_x = 0, pt_y = 0\<rparr>,
       translate = \<lparr>pt_x = 0, pt_y = 0\<rparr>, initialTranslate = \<lparr>pt_x = 0, pt_y = 0\<rparr> \<rparr>"

text \<open>
  A mounted component: the state its last render saw, which the attached handlers
  read, and the cells as they are now.
\<close>

record 's widget =
  closure :: 's
  cells :: 's

definition mounted :: "'s \<Rightarrow> 's widget" where
  "mounted s = \<lparr> closure = s, cells = s \<rparr>"

subsection \<open>Handlers written the same way in both files\<close>

text \<open>
  \<open>onMouseUp\<close> and \<open>onMouseLeave\<close> read \<open>scale\<close> and \<open>isDragging\<close> from the closure \<open>c\<close>
  and write \<open>isDragging\<close> and \<open>cursor\<close>.
\<close>

definition onMouseUp_closure :: "'a Controller_scheme \<Rightarrow> 'a Controller_scheme \<Rightarrow> 'a Controller_scheme" where
  "onMouseUp_closure c p =
     p\<lparr> isDragging := False, cursor := (if scale c > 1 then ''grab'' else ''default'') \<rparr>"

definition onMouseLeave_closure :: "'a Controller_scheme \<Rightarrow> 'a Controller_scheme \<Rightarrow> 'a Controller_scheme" where
  "onMouseLeave_closure c p =
     (if isDragging c then p\<lparr>isDragging := False\<rparr> else p)
       \<lparr> cursor := (if scale c > 1 then ''grab'' else ''default'') \<rparr>"

definition onMouseUp :: "'a Controller_scheme \<Rightarrow> 'a Controller_scheme" where
  "onMouseUp s =
     s\<lparr> isDragging := False, cursor := (if scale s > 1 then ''grab'' else ''default'') \<rparr>"

definition onMouseLeave :: "'a Controller_scheme \<Rightarrow> 'a Controller_scheme" where
  "onMouseLeave s =
     (if isDragging s then s\<lparr>isDragging := False\<rparr> else s)
       \<lparr> cursor := (if scale s > 1 then ''grab'' else ''default'') \<rparr>"

subsection \<open>\<^verbatim>\<open>src/lib/src/index.tsx\<close>: incremental pan\<close>

text \<open>
  Every cell of this file is a \<open>useState\<close> cell. \<open>onMouseMove\<close> computes the step from
  the \<open>dragStart\<close> of its closure and adds it with \<open>setTranslateX((prev) => prev + dx)\<close>
  to the translation the cell holds at that moment; \<open>onDoubleClick\<close> writes a value
  computed from the \<open>translateX\<close> and \<open>scale\<close> of its closure.
\<close>

definition onMouseDown_inc_closure :: "Controller_inc \<Rightarrow> MouseEvent \<Rightarrow> Controller_inc \<Rightarrow> Controller_inc" where
  "onMouseDown_inc_closure c e p =
     (if scale c \<le> 1 then p
      else p\<lparr> isDragging := True, cursor := ''grabbing'',
              dragStart := \<lparr>pt_x = clientX e, pt_y = clientY e\<rparr> \<rparr>)"

definition onMouseMove_inc_closure :: "(real \<Rightarrow> real) \<Rightarrow> Controller_inc \<Rightarrow> MouseEvent \<Rightarrow> Controller_inc \<Rightarrow> Controller_inc" where
  "onMouseMove_inc_closure rd c e p =
     (if \<not> isDragging c \<or> scale c \<le> 1 then p
      else
        let dx = rd (clientX e - pt_x (dragStart c));
            dy = rd (clientY e - pt_y (dragStart c))
        in p\<lparr> translateX := rd (translateX p + dx),
               translateY := rd (translateY p + dy),
               dragStart := \<lparr>pt_x = clientX e, pt_y = clientY e\<rparr> \<rparr>)"

definition onDoubleClick_inc_closure :: "(real \<Rightarrow> real) \<Rightarrow> Controller_inc \<Rightarrow> MouseEvent \<Rightarrow> Controller_inc \<Rightarrow> Controller_inc" where
  "onDoubleClick_inc_closure rd c e p =
     (let rect = currentTarget_rect e;
          x = rd (clientX e - rect_left rect);
          y = rd (clientY e - rect_top rect)
      in if scale c = 4
         then p\<lparr> translateX := 0, translateY := 0, scale := 1, cursor := ''default'' \<rparr>
         else p\<lparr> translateX := rd (rd (2 * translateX c) - x),
                 translateY := rd (rd (2 * translateY c) - y),
                 scale := rd (scale c * 2), cursor := ''grab'' \<rparr>)"

text \<open>The same handlers after a render, in exact arithmetic.\<close>

definition onMouseDown_inc :: "MouseEvent \<Rightarrow> Controller_inc \<Rightarrow> Controller_inc" where
  "onMouseDown_inc e s =
     (if scale s \<le> 1 then s
      else s\<lparr> isDragging := True, cursor := ''grabbing'',
              dragStart := \<lparr>pt_x = clientX e, pt_y = clientY e\<rparr> \<rparr>)"

definition onMouseMove_inc :: "MouseEvent \<Rightarrow> Controller_inc \<Rightarrow> Controller_inc" where
  "onMouseMove_inc e s =
     (if \<not> isDragging s \<or> scale s \<le> 1 then s
      else
        let dx = clientX e - pt_x (dragStart s);
            dy = clientY e - pt_y (dragStart s)
        in s\<lparr> translateX := translateX s + dx,
               translateY := translateY s + dy,
               dragStart := \<lparr>pt_x = clientX e, pt_y = clientY e\<rparr> \<rparr>)"

definition onDoubleClick_inc :: "MouseEvent \<Rightarrow> Controller_inc \<Rightarrow> Controller_inc" where
  "onDoubleClick_inc e s =
     (let rect = currentTarget_rect e;
          x = clientX e - rect_left rect;
          y = clientY e - rect_top rect
      in if scale s = 4
         then s\<lparr> translateX := 0, translateY := 0, scale := 1, cursor := ''default'' \<rparr>
         else s\<lparr> translateX := 2 * translateX s - x,
                 translateY := 2 * translateY s - y,
                 scale := scale s * 2, cursor := ''grab'' \<rparr>)"

subsection \<open>\<^verbatim>\<open>src/unnamed/part_000\<close>: pan relative to a snapshot\<close>

text \<open>
  \<open>scale\<close>, \<open>cursor\<close> and \<open>isDragging\<close> are \<open>useState\<close> cells, read from the closure \<open>c\<close>;
  \<open>translate\<close>, \<open>dragStart\<close> and \<open>initialTranslate\<close> are \<open>useRef\<close> cells, read from the
  cells \<open>p\<close> themselves. The argument \<open>container\<close> is
  \<open>containerRef.current?.getBoundingClientRect()\<close>: \<open>None\<close> when the ref holds no element.
  The style string that \<open>onMouseMove\<close> also writes to the element is output only and is
  not part of the state.
\<close>

definition onMouseDown_snap_closure :: "(real \<Rightarrow> real) \<Rightarrow> Controller_snap \<Rightarrow> DOMRect option \<Rightarrow> MouseEvent \<Rightarrow> Controller_snap \<Rightarrow> Controller_snap" where
  "onMouseDown_snap_closure rd c container e p =
     (if scale c \<le> 1 then p
      else
        let p' = p\<lparr> isDragging := True, cursor := ''grabbing'' \<rparr>
        in case container of
             None \<Rightarrow> p'
           | Some rect \<Rightarrow>
               p'\<lparr> dragStart := \<lparr>pt_x = rd (clientX e - rect_left rect),
                                   pt_y = rd (clientY e - rect_top rect)\<rparr>,
                    initialTranslate := translate p' \<rparr>)"

definition onMouseMove_snap_closure :: "(real \<Rightarrow> real) \<Rightarrow> Controller_snap \<Rightarrow> DOMRect option \<Rightarrow> MouseEvent \<Rightarrow> Controller_snap \<Rightarrow> Controller_snap" where
  "onMouseMove_snap_closure rd c container e p =
     (if \<not> isDragging c \<or> scale c \<le> 1 then p
      else
        case container of
          None \<Rightarrow> p
        | Some rect \<Rightarrow>
            let dx = rd (rd (clientX e - rect_left rect) - pt_x (dragStart p));
                dy = rd (rd (clientY e - rect_top rect) - pt_y (dragStart p))
            in p\<lparr> translate := \<lparr>pt_x = rd (pt_x (initialTranslate p) + dx),
                                  pt_y = rd (pt_y (initialTranslate p) + dy)\<rparr> \<rparr>)"

definition onDoubleClick_snap_closure :: "(real \<Rightarrow> real) \<Rightarrow> Controller_snap \<Rightarrow> MouseEvent \<Rightarrow> Controller_snap \<Rightarrow> Controller_snap" where
  "onDoubleClick_snap_closure rd c e p =
     (let rect = currentTarget_rect e;
          x = rd (clientX e - rect_left rect);
          y = rd (clientY e - rect_top rect)
      in if scale c = 4
         then p\<lparr> translate := \<lparr>pt_x = 0, pt_y = 0\<rparr>, scale := 1, cursor := ''default'' \<rparr>
         else p\<lparr> translate := \<lparr>pt_x = rd (rd (2 * pt_x (translate p)) - x),
                                 pt_y = rd (rd (2 * pt_y (translate p)) - y)\<rparr>,
                 scale := rd (scale c * 2), cursor := ''grab'' \<rparr>)"

text \<open>The same handlers after a render, in exact arithmetic.\<close>

definition onMouseDown_snap :: "DOMRect option \<Rightarrow> MouseEvent \<Rightarrow> Controller_snap \<Rightarrow> Controller_snap" where
  "onMouseDown_snap container e s =
     (if scale s \<le> 1 then s
      else
        let s' = s\<lparr> isDragging := True, cursor := ''grabbing'' \<rparr>
        in case container of
             None \<Rightarrow> s'
           | Some rect \<Rightarrow>
               s'\<lparr> dragStart := \<lparr>pt_x = clientX e - rect_left rect,
                                   pt_y = clientY e - rect_top rect\<rparr>,
                    initialTranslate := translate s' \<rparr>)"

definition onMouseMove_snap :: "DOMRect option \<Rightarrow> MouseEvent \<Rightarrow> Controller_snap \<Rightarrow> Controller_snap" where
  "onMouseMove_snap container e s =
     (if \<not> isDragging s \<or> scale s \<le> 1 then s
      else
        case container of
          None \<Rightarrow> s
        | Some rect \<Rightarrow>
            let dx = clientX e - rect_left rect - pt_x (dragStart s);
                dy = clientY e - rect_top rect - pt_y (dragStart s)
            in s\<lparr> translate := \<lparr>pt_x = pt_x (initialTranslate s) + dx,
                                  pt_y = pt_y (initialTranslate s) + dy\<rparr> \<rparr>)"

definition onDoubleClick_snap :: "MouseEvent \<Rightarrow> Controller_snap \<Rightarrow> Controller_snap" where
  "onDoubleClick_snap e s =
     (let rect = currentTarget_rect e;
          x = clientX e - rect_left rect;
          y = clientY e - rect_top rect
      in if scale s = 4
         then s\<lparr> translate := \<lparr>pt_x = 0, pt_y = 0\<rparr>, scale := 1, cursor := ''default'' \<rparr>
         else s\<lparr> translate := \<lparr>pt_x = 2 * pt_x (translate s) - x,
                                 pt_y = 2 * pt_y (translate s) - y\<rparr>,
                 scale := scale s * 2, cursor := ''grab'' \<rparr>)"

subsection \<open>Event sequences\<close>

text \<open>
  A pointer event as the browser delivers it to the widget, with the bounding box the
  container reports at that moment (\<open>None\<close>: no element to measure).
\<close>

datatype event =
    MouseDown "DOMRect option" MouseEvent
  | MouseMove "DOMRect option" MouseEvent
  | MouseUp
  | MouseLeave
  | DoubleClick MouseEvent

text \<open>
  What happens to a mounted component: an event is delivered to the handler of the last
  render, or the component renders again and its handlers see the cells as they are.
  A render lies between a pointer-down, a pointer-up or a double click and the next
  event; after a pointer-move the render is only scheduled, and further moves may be
  handled before it. \<open>play_inc\<close> and \<open>play_snap\<close> run a sequence of both on one file.
\<close>

datatype action = Deliver event | Rerender

fun deliver_inc :: "(real \<Rightarrow> real) \<Rightarrow> Controller_inc \<Rightarrow> event \<Rightarrow> Controller_inc \<Rightarrow> Controller_inc" where
  "deliver_inc rd c (MouseDown container e) p = onMouseDown_inc_closure c e p"
| "deliver_inc rd c (MouseMove container e) p = onMouseMove_inc_closure rd c e p"
| "deliver_inc rd c MouseUp p = onMouseUp_closure c p"
| "deliver_inc rd c MouseLeave p = onMouseLeave_closure c p"
| "deliver_inc rd c (DoubleClick e) p = onDoubleClick_inc_closure rd c e p"

fun deliver_snap :: "(real \<Rightarrow> real) \<Rightarrow> Controller_snap \<Rightarrow> event \<Rightarrow> Controller_snap \<Rightarrow> Controller_snap" where
  "deliver_snap rd c (MouseDown container e) p = onMouseDown_snap_closure rd c container e p"
| "deliver_snap rd c (MouseMove container e) p = onMouseMove_snap_closure rd c container e p"
| "deliver_snap rd c MouseUp p = onMouseUp_closure c p"
| "deliver_snap rd c MouseLeave p = onMouseLeave_closure c p"
| "deliver_snap rd c (DoubleClick e) p = onDoubleClick_snap_closure rd c e p"

fun act_inc :: "(real \<Rightarrow> real) \<Rightarrow> Controller_inc widget \<Rightarrow> action \<Rightarrow> Controller_inc widget" where
  "act_inc rd w (Deliver ev) = w\<lparr> cells := deliver_inc rd (closure w) ev (cells w) \<rparr>"
| "act_inc rd w Rerender = w\<lparr> closure := cells w \<rparr>"

fun act_snap :: "(real \<Rightarrow> real) \<Rightarrow> Controller_snap widget \<Rightarrow> action \<Rightarrow> Controller_snap widget" where
  "act_snap rd w (Deliver ev) = w\<lparr> cells := deliver_snap rd (closure w) ev (cells w) \<rparr>"
| "act_snap rd w Rerender = w\<lparr> closure := cells w \<rparr>"

definition play_inc :: "(real \<Rightarrow> real) \<Rightarrow> action list \<Rightarrow> Controller_inc widget \<Rightarrow> Controller_inc widget" where
  "play_inc rd acts w = foldl (act_inc rd) w acts"

definition play_snap :: "(real \<Rightarrow> real) \<Rightarrow> action list \<Rightarrow> Controller_snap widget \<Rightarrow> Controller_snap widget" where
  "play_snap rd acts w = foldl (act_snap rd) w acts"

text \<open>A sequence of events with a render after each of them.\<close>

definition rendered :: "event list \<Rightarrow> action list" where
  "rendered evs = concat (map (\<lambda>ev. [Deliver ev, Rerender]) evs)"

text \<open>
  \<open>run_inc\<close> and \<open>run_snap\<close> feed a sequence of events to the handlers of one file when
  the component renders after each event and the arithmetic is exact.
\<close>

fun handle_inc :: "Controller_inc \<Rightarrow> event \<Rightarrow> Controller_inc" where
  "handle_inc s (MouseDown container e) = onMouseDown_inc e s"
| "handle_inc s (MouseMove container e) = onMouseMove_inc e s"
| "handle_inc s MouseUp = onMouseUp s"
| "handle_inc s MouseLeave = onMouseLeave s"
| "handle_inc s (DoubleClick e) = onDoubleClick_inc e s"

fun handle_snap :: "Controller_snap \<Rightarrow> event \<Rightarrow> Controller_snap" where
  "handle_snap s (MouseDown container e) = onMouseDown_snap container e s"
| "handle_snap s (MouseMove container e) = onMouseMove_snap container e s"
| "handle_snap s MouseUp = onMouseUp s"
| "handle_snap s MouseLeave = onMouseLeave s"
| "handle_snap s (DoubleClick e) = onDoubleClick_snap e s"

definition run_inc :: "event list \<Rightarrow> Controller_inc \<Rightarrow> Controller_inc" where
  "run_inc evs s = foldl handle_inc s evs"

definition run_snap :: "event list \<Rightarrow> Controller_snap \<Rightarrow> Controller_snap" where
  "run_snap evs s = foldl handle_snap s evs"

text \<open>The translation of the rendered transform, as a pair, for either state record.\<close>

definition translation_inc :: "Controller_inc \<Rightarrow> real \<times> real" where
  "translation_inc s = (translateX s, translateY s)"

definition translation_snap :: "Controller_snap \<Rightarrow> real \<times> real" where
  "translation_snap s = (pt_x (translate s), pt_y (translate s))"

subsection \<open>Vocabulary of the statements\<close>

text \<open>
  The position of a pointer event relative to a bounding box: the pair that
  \<open>onMouseDown\<close> of \<^verbatim>\<open>part_000\<close> stores in \<open>dragStart\<close>, and the \<open>x\<close> and \<open>y\<close> of
  \<open>onDoubleClick\<close>.
\<close>

definition relative_to :: "DOMRect \<Rightarrow> MouseEvent \<Rightarrow> real \<times> real" where
  "relative_to rect e = (clientX e - rect_left rect, clientY e - rect_top rect)"

text \<open>A run of pointer moves, each with the measurement available when it arrives.\<close>

definition moves :: "(DOMRect option \<times> MouseEvent) list \<Rightarrow> event list" where
  "moves ms = map (\<lambda>(container, e). MouseMove container e) ms"

text \<open>The events of panning: every event but the double click.\<close>

fun pan_event :: "event \<Rightarrow> bool" where
  "pan_event (DoubleClick e) = False"
| "pan_event ev = True"

text \<open>A container whose bounding box starts at the origin, and a pointer event over it.\<close>

abbreviation origin_rect :: DOMRect where
  "origin_rect \<equiv> \<lparr>rect_left = 0, rect_top = 0\<rparr>"

abbreviation pointer_at :: "real \<Rightarrow> real \<Rightarrow> MouseEvent" where
  "pointer_at px py \<equiv> \<lparr>clientX = px, clientY = py, currentTarget_rect = origin_rect\<rparr>"

text \<open>
  The widget after mounting and one double click on the corner of the container: scale 2,
  translation (0, 0), not dragging.
\<close>

abbreviation zoomed_inc :: Controller_inc where
  "zoomed_inc \<equiv> run_inc [DoubleClick (pointer_at 0 0)] initial_inc"

abbreviation zoomed_snap :: Controller_snap where
  "zoomed_snap \<equiv> run_snap [DoubleClick (pointer_at 0 0)] initial_snap"

text \<open>
  A whole number of magnitude at most \<open>2 ^ 50\<close>, and events and boxes with such
  coordinates: sums and differences of up to four of them are whole numbers below
  \<open>2 ^ 53\<close>, which doubles represent exactly.
\<close>

definition whole :: "real \<Rightarrow> bool" where
  "whole x = (x \<in> \<int> \<and> \<bar>x\<bar> \<le> 2 ^ 50)"

definition whole_event :: "MouseEvent \<Rightarrow> bool" where
  "whole_event e = (whole (clientX e) \<and> whole (clientY e))"

definition whole_rect :: "DOMRect \<Rightarrow> bool" where
  "whole_rect r = (whole (rect_left r) \<and> whole (rect_top r))"

text \<open>A pointer-move or a render: what may happen between pointer-down and pointer-up.\<close>

fun move_or_render :: "action \<Rightarrow> bool" where
  "move_or_render (Deliver (MouseMove container e)) = True"
| "move_or_render Rerender = True"
| "move_or_render a = False"


text \<open>
  The drag of the worked example on the zoomed widget, with both moves handled before
  the component renders again.
\<close>

abbreviation batched_drag :: "action list" where
  "batched_drag \<equiv>
     [Deliver (MouseDown (Some origin_rect) (pointer_at 100 100)), Rerender,
      Deliver (MouseMove (Some origin_rect) (pointer_at 150 130)),
      Deliver (MouseMove (Some origin_rect) (pointer_at 120 90)), Rerender]"

text \<open>
  A container whose left edge is at the double nearest to 8.3, and a drag over it from
  100 to 150 with a render after each event.
\<close>

abbreviation box_8_3 :: DOMRect where
  "box_8_3 \<equiv> \<lparr>rect_left = 2336242306698445 / 2 ^ 48, rect_top = 0\<rparr>"

abbreviation drag_over_box_8_3 :: "action list" where
  "drag_over_box_8_3 \<equiv>
     rendered
       [MouseDown (Some box_8_3) \<lparr>clientX = 100, clientY = 0, currentTarget_rect = box_8_3\<rparr>,
        MouseMove (Some box_8_3) \<lparr>clientX = 150, clientY = 0, currentTarget_rect = box_8_3\<rparr>]"

section \<open>Facts about the number model and the lookup\<close>

subsection \<open>The comparison operators\<close>

lemma num_le_refl: "a \<noteq> NaN \<Longrightarrow> num_le a a"
  by (cases a) (simp_all add: num_le_def)

lemma num_lt_imp_le: "num_lt a b \<Longrightarrow> num_le a b"
  by (cases a; cases b) (simp_all add: num_le_def)

lemma not_num_lt_imp_le: "a \<noteq> NaN \<Longrightarrow> b \<noteq> NaN \<Longrightarrow> \<not> num_lt a b \<Longrightarrow> num_le b a"
  by (simp add: num_le_def)

lemma num_le_trans: "num_le a b \<Longrightarrow> num_le b c \<Longrightarrow> num_le a c"
  by (cases a; cases b; cases c) (simp_all add: num_le_def)

lemma num_le_Infinity: "a \<noteq> NaN \<Longrightarrow> num_le a Infinity"
  by (cases a) (simp_all add: num_le_def)

lemma NegInfinity_num_le: "a \<noteq> NaN \<Longrightarrow> num_le NegInfinity a"
  by (cases a) (simp_all add: num_le_def)

subsection \<open>\<open>Math.min\<close> and \<open>Math.max\<close>\<close>

lemma min_loop_NaN: "NaN \<in> set ns \<Longrightarrow> min_loop lowest ns = NaN"
  by (induction ns arbitrary: lowest) auto

lemma max_loop_NaN: "NaN \<in> set ns \<Longrightarrow> max_loop highest ns = NaN"
  by (induction ns arbitrary: highest) auto

lemma min_loop_lower:
  "NaN \<notin> set ns \<Longrightarrow> lowest \<noteq> NaN \<Longrightarrow>
   num_le (min_loop lowest ns) lowest \<and> (\<forall>n \<in> set ns. num_le (min_loop lowest ns) n)"
proof (induction ns arbitrary: lowest)
  case Nil
  then show ?case by (simp add: num_le_refl)
next
  case (Cons n ns)
  let ?l = "if num_lt n lowest then n else lowest"
  from Cons.prems have n: "n \<noteq> NaN" and ns: "NaN \<notin> set ns" by auto
  have l: "?l \<noteq> NaN" using n Cons.prems(2) by simp
  have step: "min_loop lowest (n # ns) = min_loop ?l ns" using n by simp
  have IH: "num_le (min_loop ?l ns) ?l" "\<forall>m \<in> set ns. num_le (min_loop ?l ns) m"
    using Cons.IH [OF ns l] by blast+
  have "num_le ?l lowest" using Cons.prems(2) by (simp add: num_lt_imp_le num_le_refl)
  moreover have "num_le ?l n" using n Cons.prems(2) by (simp add: not_num_lt_imp_le num_le_refl)
  ultimately show ?case using IH step by (auto intro: num_le_trans)
qed

lemma min_loop_attained:
  "NaN \<notin> set ns \<Longrightarrow> min_loop lowest ns = lowest \<or> min_loop lowest ns \<in> set ns"
proof (induction ns arbitrary: lowest)
  case Nil
  then show ?case by simp
next
  case (Cons n ns)
  then have n: "n \<noteq> NaN" and ns: "NaN \<notin> set ns" by auto
  show ?case using Cons.IH [OF ns, of "if num_lt n lowest then n else lowest"] n
    by (auto split: if_splits)
qed

lemma max_loop_upper:
  "NaN \<notin> set ns \<Longrightarrow> highest \<noteq> NaN \<Longrightarrow>
   num_le highest (max_loop highest ns) \<and> (\<forall>n \<in> set ns. num_le n (max_loop highest ns))"
proof (induction ns arbitrary: highest)
  case Nil
  then show ?case by (simp add: num_le_refl)
next
  case (Cons n ns)
  let ?h = "if num_lt highest n then n else highest"
  from Cons.prems have n: "n \<noteq> NaN" and ns: "NaN \<notin> set ns" by auto
  have h: "?h \<noteq> NaN" using n Cons.prems(2) by simp
  have step: "max_loop highest (n # ns) = max_loop ?h ns" using n by simp
  have IH: "num_le ?h (max_loop ?h ns)" "\<forall>m \<in> set ns. num_le m (max_loop ?h ns)"
    using Cons.IH [OF ns h] by blast+
  have "num_le highest ?h" using Cons.prems(2) by (simp add: num_lt_imp_le num_le_refl)
  moreover have "num_le n ?h" using n Cons.prems(2) by (simp add: not_num_lt_imp_le num_le_refl)
  ultimately show ?case using IH step by (auto intro: num_le_trans)
qed

lemma max_loop_attained:
  "NaN \<notin> set ns \<Longrightarrow> max_loop highest ns = highest \<or> max_loop highest ns \<in> set ns"
proof (induction ns arbitrary: highest)
  case Nil
  then show ?case by simp
next
  case (Cons n ns)
  then have n: "n \<noteq> NaN" and ns: "NaN \<notin> set ns" by auto
  show ?case using Cons.IH [OF ns, of "if num_lt highest n then n else highest"] n
    by (auto split: if_splits)
qed

lemma Math_min_attained:
  assumes "NaN \<notin> set ns" "ns \<noteq> []"
  shows "Math_min ns \<in> set ns"
proof -
  obtain n ms where ns: "ns = n # ms" using assms(2) by (cases ns) auto
  have n: "n \<noteq> NaN" and ms: "NaN \<notin> set ms" using assms(1) ns by auto
  have "(if num_lt n Infinity then n else Infinity) = n" using n by (cases n) simp_all
  then have "Math_min ns = min_loop n ms" using n ns by (simp add: Math_min_def)
  then show ?thesis using min_loop_attained [OF ms, of n] ns by auto
qed

lemma Math_max_attained:
  assumes "NaN \<notin> set ns" "ns \<noteq> []"
  shows "Math_max ns \<in> set ns"
proof -
  obtain n ms where ns: "ns = n # ms" using assms(2) by (cases ns) auto
  have n: "n \<noteq> NaN" and ms: "NaN \<notin> set ms" using assms(1) ns by auto
  have "(if num_lt NegInfinity n then n else NegInfinity) = n" using n by (cases n) simp_all
  then have "Math_max ns = max_loop n ms" using n ns by (simp add: Math_max_def)
  then show ?thesis using max_loop_attained [OF ms, of n] ns by auto
qed

subsection \<open>The lookup object and the range\<close>

lemma toValue_NaN: "toValue d = NaN \<longleftrightarrow> dataValue d = NumberV NaN"
  by (auto simp: toValue_def split: jsvalue.splits)

lemma Object_fromEntries_map_of: "Object_fromEntries es = map_of (rev es)"
proof -
  have "foldl (\<lambda>obj (k, v). obj(k \<mapsto> v)) m es = m ++ map_of (rev es)" for m :: "string \<rightharpoonup> 'a"
    by (induction es arbitrary: m) (auto simp: map_add_upd_left)
  then show ?thesis by (simp add: Object_fromEntries_def)
qed


lemma countryValueMap_map_of:
  "countryValueMap data = map_of (rev (map (\<lambda>d. (toUpperCase (country d), dataValue d)) data))"
  by (simp add: countryValueMap_def Object_fromEntries_map_of)

lemma countryValueMap_absent:
  "\<forall>d \<in> set data. toUpperCase (country d) \<noteq> k \<Longrightarrow> countryValueMap data k = None"
  by (force simp: countryValueMap_map_of map_of_eq_None_iff)

lemma countryValueMap_last:
  assumes "toUpperCase (country d) = k"
    and "\<forall>d' \<in> set ys. toUpperCase (country d') \<noteq> k"
  shows "countryValueMap (xs @ d # ys) k = Some (dataValue d)"
proof -
  have "map_of (rev (map (\<lambda>d. (toUpperCase (country d), dataValue d)) ys)) k = None"
    using countryValueMap_absent [OF assms(2)] by (simp add: countryValueMap_map_of)
  then show ?thesis
    using assms(1) by (simp add: countryValueMap_map_of map_add_def)
qed

lemma dom_countryValueMap:
  "dom (countryValueMap data) = (\<lambda>d. toUpperCase (country d)) ` set data"
  by (force simp: countryValueMap_map_of dom_map_of_conv_image_fst)

lemma countryValueMap_other_key:
  "k' \<noteq> k \<Longrightarrow>
   countryValueMap (filter (\<lambda>d. toUpperCase (country d) \<noteq> k) xs) k' = countryValueMap xs k'"
  by (induction xs) (auto simp: countryValueMap_map_of map_add_def split: option.splits)

lemma countryValueMap_append:
  "countryValueMap (xs @ ys) k =
     (case countryValueMap ys k of None \<Rightarrow> countryValueMap xs k | Some v \<Rightarrow> Some v)"
  by (simp add: countryValueMap_map_of map_add_def split: option.splits)

lemma countryValueMap_Cons_same:
  assumes "toUpperCase (country d) = k"
  shows "\<exists>v. countryValueMap (d # ys) k = Some v"
proof -
  have "countryValueMap [d] k = Some (dataValue d)"
    using assms by (simp add: countryValueMap_map_of)
  then show ?thesis
    using countryValueMap_append [of "[d]" ys k] by (simp split: option.splits)
qed

lemma countryValueMap_drop_earlier:
  assumes "toUpperCase (country d) = k"
  shows "countryValueMap (filter (\<lambda>d'. toUpperCase (country d') \<noteq> k) xs @ d # ys)
         = countryValueMap (xs @ d # ys)"
proof
  fix k'
  show "countryValueMap (filter (\<lambda>d'. toUpperCase (country d') \<noteq> k) xs @ d # ys) k'
        = countryValueMap (xs @ d # ys) k'"
  proof (cases "k' = k")
    case True
    obtain v where "countryValueMap (d # ys) k = Some v"
      using countryValueMap_Cons_same [OF assms] by blast
    then show ?thesis
      using True by (simp add: countryValueMap_append [of _ "d # ys"])
  next
    case False
    have "countryValueMap (filter (\<lambda>d'. toUpperCase (country d') \<noteq> k) xs) k'
          = countryValueMap xs k'"
      using False by (rule countryValueMap_other_key)
    then show ?thesis
      by (simp only: countryValueMap_append [of _ "d # ys"])
  qed
qed

lemma range_bounds_toValue:
  assumes "\<forall>d \<in> set data. dataValue d \<noteq> NumberV NaN" and "d \<in> set data"
  shows "num_le (minValue_of data) (toValue d) \<and> num_le (toValue d) (maxValue_of data)"
proof -
  have "toValue d' \<noteq> NaN" if "d' \<in> set data" for d'
    using assms(1) that by (simp add: toValue_NaN)
  then have "NaN \<notin> set (map toValue data)" by force
  moreover have "toValue d \<in> set (map toValue data)" using assms(2) by simp
  ultimately show ?thesis
    using min_loop_lower [of "map toValue data" Infinity] max_loop_upper [of "map toValue data" NegInfinity]
    unfolding minValue_of_def maxValue_of_def Math_min_def Math_max_def by blast
qed

lemma range_attained:
  assumes "\<forall>d \<in> set data. dataValue d \<noteq> NumberV NaN" and "data \<noteq> []"
  shows "minValue_of data \<in> toValue ` set data \<and> maxValue_of data \<in> toValue ` set data"
proof -
  have "toValue d' \<noteq> NaN" if "d' \<in> set data" for d'
    using assms(1) that by (simp add: toValue_NaN)
  then have "NaN \<notin> set (map toValue data)" by force
  moreover have "map toValue data \<noteq> []" using assms(2) by simp
  ultimately show ?thesis
    using Math_min_attained [of "map toValue data"] Math_max_attained [of "map toValue data"]
    unfolding minValue_of_def maxValue_of_def by simp
qed

lemma range_NaN:
  assumes "d \<in> set data" and "dataValue d = NumberV NaN"
  shows "minValue_of data = NaN \<and> maxValue_of data = NaN"
proof -
  have "toValue d = NaN" using assms(2) by (simp add: toValue_NaN)
  then have "NaN \<in> set (map toValue data)" using assms(1) by force
  then show ?thesis
    by (simp add: minValue_of_def maxValue_of_def Math_min_def Math_max_def min_loop_NaN max_loop_NaN)
qed


text \<open>The range reads an item only through its value.\<close>

lemma toValue_via_dataValue:
  "map toValue data =
   map ((\<lambda>v. case v of StringV s \<Rightarrow> Finite 0 | NumberV n \<Rightarrow> n) \<circ> snd)
     (map (\<lambda>d. (toUpperCase (country d), dataValue d)) data)"
  by (simp add: toValue_def comp_def)

section \<open>Data binding: properties\<close>

text \<open>
  C7. For the empty dataset the range computation yields \<open>minValue = Infinity\<close> and
  \<open>maxValue = -Infinity\<close>, and these values are handed on unchanged: every context built
  for a feature of the geometry table carries them, and nothing is raised.
\<close>

theorem empty_dataset_range:
  "minValue_of [] = Infinity \<and> maxValue_of [] = NegInfinity \<and>
   (\<forall>c \<in> set (regions features [] col valuePrefix valueSuffix).
      minValue c = Infinity \<and> maxValue c = NegInfinity \<and> countryValue c = None)"
  by (simp add: minValue_of_def maxValue_of_def Math_min_def Math_max_def regions_def
      context_of_def countryValueMap_def Object_fromEntries_def)

text \<open>C7 at a geometry table of one feature.\<close>

theorem empty_dataset_range_witness:
  "map (\<lambda>c. (countryCode c, minValue c, maxValue c))
     (regions [\<lparr>feature_I = ''US'', feature_N = ''United States''\<rparr>] [] ''red'' [] [])
   = [(''US'', Infinity, NegInfinity)]"
  using empty_dataset_range [of "[\<lparr>feature_I = ''US'', feature_N = ''United States''\<rparr>]" "''red''" "[]" "[]"]
  by (simp add: regions_def context_of_def)

text \<open>
  C3, amended. For every dataset in which no value is NaN, \<open>minValue\<close> is less than or
  equal to every numeric value of the dataset, and every numeric value of the dataset is
  less than or equal to \<open>maxValue\<close>. (An item \<open>d\<close> of the dataset makes it non-empty.)
\<close>

theorem range_bounds_without_NaN:
  assumes "\<forall>d \<in> set data. dataValue d \<noteq> NumberV NaN"
    and "d \<in> set data"
    and "dataValue d = NumberV n"
  shows "num_le (minValue_of data) n \<and> num_le n (maxValue_of data)"
proof -
  have "toValue d = n" using assms(3) by (simp add: toValue_def)
  then show ?thesis using range_bounds_toValue [OF assms(1,2)] by simp
qed

text \<open>C3, amended, at the dataset US = 5, FR = 7.\<close>

theorem range_bounds_without_NaN_witness:
  "num_le (minValue_of [\<lparr>country = ''US'', dataValue = NumberV (Finite 5)\<rparr>,
                        \<lparr>country = ''FR'', dataValue = NumberV (Finite 7)\<rparr>]) (Finite 5)
   \<and> num_le (Finite 5)
        (maxValue_of [\<lparr>country = ''US'', dataValue = NumberV (Finite 5)\<rparr>,
                      \<lparr>country = ''FR'', dataValue = NumberV (Finite 7)\<rparr>])"
  using range_bounds_without_NaN
    [of "[\<lparr>country = ''US'', dataValue = NumberV (Finite 5)\<rparr>,
          \<lparr>country = ''FR'', dataValue = NumberV (Finite 7)\<rparr>]"
        "\<lparr>country = ''US'', dataValue = NumberV (Finite 5)\<rparr>" "Finite 5"]
  by simp

text \<open>
  C3 as stated fails on a dataset that holds NaN: \<open>Math.min\<close> answers NaN, and
  \<^verbatim>\<open>NaN <= 5\<close> is false, so \<open>minValue\<close> is not below the numeric value 5 of the
  dataset.
\<close>

theorem range_bounds_NaN_counterexample:
  "\<not> num_le (minValue_of [\<lparr>country = ''US'', dataValue = NumberV (Finite 5)\<rparr>,
                          \<lparr>country = ''FR'', dataValue = NumberV NaN\<rparr>]) (Finite 5)"
  by (simp add: minValue_of_def Math_min_def toValue_def num_le_def)

text \<open>
  C6, amended. \<open>toValue\<close> turns a string value into 0 and leaves a number as it is; the
  lookup keeps the string itself, which is the \<open>countryValue\<close> of the context of the
  matching feature (\<open>d\<close> is the last item of the dataset whose upper-cased code is the
  feature's); and when no value of the dataset is NaN, \<open>minValue\<close> is the least and
  \<open>maxValue\<close> the greatest of the coerced values: a bound of all of them, and one of
  them when the dataset is not empty.
\<close>

theorem string_coerced_for_range_only:
  "(dataValue d = StringV s \<longrightarrow> toValue d = Finite 0) \<and>
   (dataValue d = NumberV n \<longrightarrow> toValue d = n) \<and>
   (dataValue d = StringV s \<and> toUpperCase (country d) = feature_I f \<and>
    (\<forall>d' \<in> set ys. toUpperCase (country d') \<noteq> feature_I f) \<longrightarrow>
      countryValueMap (xs @ d # ys) (feature_I f) = Some (StringV s) \<and>
      countryValue (context_of (xs @ d # ys) col valuePrefix valueSuffix f) = Some (StringV s)) \<and>
   ((\<forall>d' \<in> set data. dataValue d' \<noteq> NumberV NaN) \<longrightarrow>
      (\<forall>d' \<in> set data. num_le (minValue_of data) (toValue d') \<and>
                          num_le (toValue d') (maxValue_of data)) \<and>
      (data \<noteq> [] \<longrightarrow> minValue_of data \<in> toValue ` set data \<and>
                       maxValue_of data \<in> toValue ` set data))"
proof -
  have coerce: "dataValue d = StringV s \<longrightarrow> toValue d = Finite 0"
    by (simp add: toValue_def)
  have keep: "dataValue d = NumberV n \<longrightarrow> toValue d = n"
    by (simp add: toValue_def)
  have lookup: "dataValue d = StringV s \<and> toUpperCase (country d) = feature_I f \<and>
    (\<forall>d' \<in> set ys. toUpperCase (country d') \<noteq> feature_I f) \<longrightarrow>
      countryValueMap (xs @ d # ys) (feature_I f) = Some (StringV s) \<and>
      countryValue (context_of (xs @ d # ys) col valuePrefix valueSuffix f) = Some (StringV s)"
    using countryValueMap_last [of d "feature_I f" ys xs] by (simp add: context_of_def)
  have range: "(\<forall>d' \<in> set data. dataValue d' \<noteq> NumberV NaN) \<longrightarrow>
      (\<forall>d' \<in> set data. num_le (minValue_of data) (toValue d') \<and>
                          num_le (toValue d') (maxValue_of data)) \<and>
      (data \<noteq> [] \<longrightarrow> minValue_of data \<in> toValue ` set data \<and>
                       maxValue_of data \<in> toValue ` set data)"
    using range_bounds_toValue [of data] range_attained [of data] by blast
  from coerce keep lookup range show ?thesis by (intro conjI)
qed

text \<open>
  C6, amended, at the dataset us = "n/a", FR = 3: the string counts as 0 in the range and
  is still the value of the context of US.
\<close>

theorem string_coerced_for_range_only_witness:
  "toValue \<lparr>country = ''us'', dataValue = StringV ''n/a''\<rparr> = Finite 0 \<and>
   countryValue (context_of [\<lparr>country = ''us'', dataValue = StringV ''n/a''\<rparr>,
                             \<lparr>country = ''FR'', dataValue = NumberV (Finite 3)\<rparr>]
                   ''red'' [] [] \<lparr>feature_I = ''US'', feature_N = ''United States''\<rparr>)
     = Some (StringV ''n/a'') \<and>
   minValue_of [\<lparr>country = ''us'', dataValue = StringV ''n/a''\<rparr>,
                \<lparr>country = ''FR'', dataValue = NumberV (Finite 3)\<rparr>] = Finite 0 \<and>
   maxValue_of [\<lparr>country = ''us'', dataValue = StringV ''n/a''\<rparr>,
                \<lparr>country = ''FR'', dataValue = NumberV (Finite 3)\<rparr>] = Finite 3"
  using string_coerced_for_range_only
    [of "\<lparr>country = ''us'', dataValue = StringV ''n/a''\<rparr>" "''n/a''" "Finite 0"
        "\<lparr>feature_I = ''US'', feature_N = ''United States''\<rparr>"
        "[\<lparr>country = ''FR'', dataValue = NumberV (Finite 3)\<rparr>]" "[]" "''red''" "[]" "[]"
        "[\<lparr>country = ''us'', dataValue = StringV ''n/a''\<rparr>,
          \<lparr>country = ''FR'', dataValue = NumberV (Finite 3)\<rparr>]"]
  by (simp add: toUpperCase_def toUpperCase_char_def toValue_def minValue_of_def maxValue_of_def
      Math_min_def Math_max_def)

text \<open>
  C6 as stated fails on a dataset that holds NaN: \<open>minValue\<close> is NaN, which is not below
  the coerced value 0 of the string item, so it is not the minimum of the coerced values.
\<close>

theorem string_coerced_NaN_counterexample:
  "minValue_of [\<lparr>country = ''DE'', dataValue = StringV ''n/a''\<rparr>,
                \<lparr>country = ''FR'', dataValue = NumberV NaN\<rparr>] = NaN \<and>
   \<not> num_le (minValue_of [\<lparr>country = ''DE'', dataValue = StringV ''n/a''\<rparr>,
                          \<lparr>country = ''FR'', dataValue = NumberV NaN\<rparr>])
              (toValue \<lparr>country = ''DE'', dataValue = StringV ''n/a''\<rparr>)"
  by (simp add: minValue_of_def Math_min_def toValue_def num_le_def)


text \<open>
  C4. The keys of the lookup are the upper-cased codes of the caller's items; the
  \<open>countryCode\<close> of every context is the ISO code of its feature, in upper case as the
  codes of the geometry table are; so an item whose code is equal to a feature's ISO code
  after upper-casing (the last such item \<open>d\<close> of the dataset) resolves to the context of
  that feature, whose \<open>countryValue\<close> is the caller's value. Two datasets that differ only
  in the casing of their codes yield the same contexts.
\<close>

theorem country_code_case_insensitive:
  "dom (countryValueMap data) = (\<lambda>d. toUpperCase (country d)) ` set data \<and>
   ((\<forall>g \<in> set features. toUpperCase (feature_I g) = feature_I g) \<longrightarrow>
      (\<forall>c \<in> set (regions features data col valuePrefix valueSuffix).
         toUpperCase (countryCode c) = countryCode c)) \<and>
   (f \<in> set features \<and> data = xs @ d # ys \<and> toUpperCase (country d) = feature_I f \<and>
    (\<forall>d' \<in> set ys. toUpperCase (country d') \<noteq> feature_I f) \<longrightarrow>
      context_of data col valuePrefix valueSuffix f
        \<in> set (regions features data col valuePrefix valueSuffix) \<and>
      countryCode (context_of data col valuePrefix valueSuffix f) = toUpperCase (country d) \<and>
      countryValue (context_of data col valuePrefix valueSuffix f) = Some (dataValue d)) \<and>
   (map (\<lambda>d. (toUpperCase (country d), dataValue d)) data'
      = map (\<lambda>d. (toUpperCase (country d), dataValue d)) data \<longrightarrow>
      regions features data' col valuePrefix valueSuffix
        = regions features data col valuePrefix valueSuffix)"
proof -
  have keys: "dom (countryValueMap data) = (\<lambda>d. toUpperCase (country d)) ` set data"
    by (rule dom_countryValueMap)
  have codes: "(\<forall>g \<in> set features. toUpperCase (feature_I g) = feature_I g) \<longrightarrow>
      (\<forall>c \<in> set (regions features data col valuePrefix valueSuffix).
         toUpperCase (countryCode c) = countryCode c)"
    by (auto simp: regions_def context_of_def)
  have resolve: "f \<in> set features \<and> data = xs @ d # ys \<and> toUpperCase (country d) = feature_I f \<and>
    (\<forall>d' \<in> set ys. toUpperCase (country d') \<noteq> feature_I f) \<longrightarrow>
      context_of data col valuePrefix valueSuffix f
        \<in> set (regions features data col valuePrefix valueSuffix) \<and>
      countryCode (context_of data col valuePrefix valueSuffix f) = toUpperCase (country d) \<and>
      countryValue (context_of data col valuePrefix valueSuffix f) = Some (dataValue d)"
  proof (intro impI, elim conjE)
    assume f: "f \<in> set features" and data: "data = xs @ d # ys"
      and d: "toUpperCase (country d) = feature_I f"
      and ys: "\<forall>d' \<in> set ys. toUpperCase (country d') \<noteq> feature_I f"
    have "countryValueMap data (feature_I f) = Some (dataValue d)"
      unfolding data using d ys by (rule countryValueMap_last)
    then have fields:
      "countryCode (context_of data col valuePrefix valueSuffix f) = toUpperCase (country d) \<and>
       countryValue (context_of data col valuePrefix valueSuffix f) = Some (dataValue d)"
      using d by (simp add: context_of_def)
    have "context_of data col valuePrefix valueSuffix f
        \<in> set (regions features data col valuePrefix valueSuffix)"
      using f by (simp add: regions_def)
    with fields show "context_of data col valuePrefix valueSuffix f
        \<in> set (regions features data col valuePrefix valueSuffix) \<and>
      countryCode (context_of data col valuePrefix valueSuffix f) = toUpperCase (country d) \<and>
      countryValue (context_of data col valuePrefix valueSuffix f) = Some (dataValue d)"
      by simp
  qed
  have casing: "map (\<lambda>d. (toUpperCase (country d), dataValue d)) data'
      = map (\<lambda>d. (toUpperCase (country d), dataValue d)) data \<longrightarrow>
      regions features data' col valuePrefix valueSuffix
        = regions features data col valuePrefix valueSuffix"
  proof
    assume eq: "map (\<lambda>d. (toUpperCase (country d), dataValue d)) data'
      = map (\<lambda>d. (toUpperCase (country d), dataValue d)) data"
    then have "countryValueMap data' = countryValueMap data"
      by (simp add: countryValueMap_def)
    moreover have "map toValue data' = map toValue data"
      using eq by (simp only: toValue_via_dataValue)
    ultimately show "regions features data' col valuePrefix valueSuffix
        = regions features data col valuePrefix valueSuffix"
      by (simp add: regions_def context_of_def minValue_of_def maxValue_of_def)
  qed
  from keys codes resolve casing show ?thesis by (intro conjI)
qed

text \<open>C4 at the dataset us = 42 and the geometry entry US.\<close>

theorem country_code_case_insensitive_witness:
  "regions [\<lparr>feature_I = ''US'', feature_N = ''United States''\<rparr>]
     [\<lparr>country = ''us'', dataValue = NumberV (Finite 42)\<rparr>] ''red'' [] []
   = [\<lparr>countryCode = ''US'', countryValue = Some (NumberV (Finite 42)),
       countryName = ''United States'', color = ''red'',
       minValue = Finite 42, maxValue = Finite 42, prefix = [], suffix = []\<rparr>]"
  using country_code_case_insensitive
    [of "[\<lparr>country = ''us'', dataValue = NumberV (Finite 42)\<rparr>]"
        "[\<lparr>feature_I = ''US'', feature_N = ''United States''\<rparr>]" "''red''" "[]" "[]"
        "\<lparr>feature_I = ''US'', feature_N = ''United States''\<rparr>" "[]"
        "\<lparr>country = ''us'', dataValue = NumberV (Finite 42)\<rparr>" "[]"
        "[\<lparr>country = ''US'', dataValue = NumberV (Finite 42)\<rparr>]"]
  by (simp add: regions_def context_of_def toUpperCase_def toUpperCase_char_def
      minValue_of_def maxValue_of_def Math_min_def Math_max_def toValue_def)

text \<open>
  C10. When several items have the same code after upper-casing, the context of the
  matching feature carries the value of the last of them (\<open>d\<close>, with no later match in
  \<open>ys\<close>). Deleting the earlier duplicates from \<open>xs\<close> leaves the whole lookup unchanged,
  and the context is the one built without them except for \<open>minValue\<close> and \<open>maxValue\<close>,
  which range over every item, the earlier duplicates included.
\<close>

theorem last_duplicate_wins:
  assumes "toUpperCase (country d) = feature_I f"
    and "\<forall>d' \<in> set ys. toUpperCase (country d') \<noteq> feature_I f"
  shows "countryValue (context_of (xs @ d # ys) col valuePrefix valueSuffix f) = Some (dataValue d) \<and>
    countryValueMap (filter (\<lambda>d'. toUpperCase (country d') \<noteq> feature_I f) xs @ d # ys)
      = countryValueMap (xs @ d # ys) \<and>
    context_of (xs @ d # ys) col valuePrefix valueSuffix f
      = (context_of (filter (\<lambda>d'. toUpperCase (country d') \<noteq> feature_I f) xs @ d # ys)
           col valuePrefix valueSuffix f)
          \<lparr> minValue := Math_min (map toValue xs @ toValue d # map toValue ys),
            maxValue := Math_max (map toValue xs @ toValue d # map toValue ys) \<rparr>"
proof -
  have last: "countryValueMap (xs @ d # ys) (feature_I f) = Some (dataValue d)"
    using assms by (rule countryValueMap_last)
  have drop: "countryValueMap (filter (\<lambda>d'. toUpperCase (country d') \<noteq> feature_I f) xs @ d # ys)
      = countryValueMap (xs @ d # ys)"
    using assms(1) by (rule countryValueMap_drop_earlier)
  show ?thesis
    using last drop by (simp add: context_of_def minValue_of_def maxValue_of_def)
qed

text \<open>
  C10 at the dataset us = 1, US = 9: the context of US holds 9, and the earlier duplicate
  still sets \<open>minValue\<close> to 1.
\<close>

theorem last_duplicate_wins_witness:
  "context_of [\<lparr>country = ''us'', dataValue = NumberV (Finite 1)\<rparr>,
               \<lparr>country = ''US'', dataValue = NumberV (Finite 9)\<rparr>]
     ''red'' [] [] \<lparr>feature_I = ''US'', feature_N = ''United States''\<rparr>
   = \<lparr>countryCode = ''US'', countryValue = Some (NumberV (Finite 9)),
       countryName = ''United States'', color = ''red'',
       minValue = Finite 1, maxValue = Finite 9, prefix = [], suffix = []\<rparr>"
  using last_duplicate_wins
    [of "\<lparr>country = ''US'', dataValue = NumberV (Finite 9)\<rparr>"
        "\<lparr>feature_I = ''US'', feature_N = ''United States''\<rparr>" "[]"
        "[\<lparr>country = ''us'', dataValue = NumberV (Finite 1)\<rparr>]" "''red''" "[]" "[]"]
  by (simp add: context_of_def toUpperCase_def toUpperCase_char_def
      minValue_of_def maxValue_of_def Math_min_def Math_max_def toValue_def
      countryValueMap_def Object_fromEntries_def)


section \<open>Interaction controller: facts about the handlers\<close>

subsection \<open>Running a sequence of events\<close>

lemmas handler_defs =
  onMouseUp_def onMouseLeave_def onMouseDown_inc_def onMouseMove_inc_def onDoubleClick_inc_def
  onMouseDown_snap_def onMouseMove_snap_def onDoubleClick_snap_def

lemma run_inc_Nil: "run_inc [] s = s"
  by (simp add: run_inc_def)

lemma run_inc_Cons: "run_inc (ev # evs) s = run_inc evs (handle_inc s ev)"
  by (simp add: run_inc_def)

lemma run_inc_append: "run_inc (evs @ evs') s = run_inc evs' (run_inc evs s)"
  by (simp add: run_inc_def)

lemma run_snap_Nil: "run_snap [] s = s"
  by (simp add: run_snap_def)

lemma run_snap_Cons: "run_snap (ev # evs) s = run_snap evs (handle_snap s ev)"
  by (simp add: run_snap_def)

lemma run_snap_append: "run_snap (evs @ evs') s = run_snap evs' (run_snap evs s)"
  by (simp add: run_snap_def)

lemmas run_simps =
  run_snap_Cons run_snap_Nil run_inc_Cons run_inc_Nil handle_snap.simps handle_inc.simps


lemma translation_onMouseUp_snap: "translation_snap (onMouseUp s) = translation_snap s"
  by (simp add: onMouseUp_def translation_snap_def)

lemma translation_onMouseUp_inc: "translation_inc (onMouseUp s) = translation_inc s"
  by (simp add: onMouseUp_def translation_inc_def)

subsection \<open>Pan events on an unzoomed map\<close>

lemma pan_step_inc:
  assumes "pan_event ev" "scale s \<le> 1"
  shows "translateX (handle_inc s ev) = translateX s \<and> translateY (handle_inc s ev) = translateY s
         \<and> scale (handle_inc s ev) = scale s"
  using assms by (cases ev) (simp_all add: handler_defs)

lemma pan_step_snap:
  assumes "pan_event ev" "scale s \<le> 1"
  shows "translate (handle_snap s ev) = translate s \<and> scale (handle_snap s ev) = scale s"
  using assms by (cases ev) (simp_all add: handler_defs)

lemma pan_run_inc:
  "\<forall>ev \<in> set evs. pan_event ev \<Longrightarrow> scale s \<le> 1 \<Longrightarrow>
   translateX (run_inc evs s) = translateX s \<and> translateY (run_inc evs s) = translateY s
   \<and> scale (run_inc evs s) = scale s"
proof (induction evs arbitrary: s)
  case Nil
  show ?case by (simp add: run_inc_Nil)
next
  case (Cons ev evs)
  have step: "translateX (handle_inc s ev) = translateX s \<and>
      translateY (handle_inc s ev) = translateY s \<and> scale (handle_inc s ev) = scale s"
    using Cons.prems by (simp add: pan_step_inc)
  then have "scale (handle_inc s ev) \<le> 1" using Cons.prems(2) by simp
  then show ?case using Cons.IH [of "handle_inc s ev"] Cons.prems(1) step
    by (simp add: run_inc_Cons)
qed

lemma pan_run_snap:
  "\<forall>ev \<in> set evs. pan_event ev \<Longrightarrow> scale s \<le> 1 \<Longrightarrow>
   translate (run_snap evs s) = translate s \<and> scale (run_snap evs s) = scale s"
proof (induction evs arbitrary: s)
  case Nil
  show ?case by (simp add: run_snap_Nil)
next
  case (Cons ev evs)
  have step: "translate (handle_snap s ev) = translate s \<and> scale (handle_snap s ev) = scale s"
    using Cons.prems by (simp add: pan_step_snap)
  then have "scale (handle_snap s ev) \<le> 1" using Cons.prems(2) by simp
  then show ?case using Cons.IH [of "handle_snap s ev"] Cons.prems(1) step
    by (simp add: run_snap_Cons)
qed

subsection \<open>The scale under double clicks\<close>

lemma onDoubleClick_inc_scale:
  "scale (onDoubleClick_inc e s) = (if scale s = 4 then 1 else scale s * 2)"
  by (simp add: onDoubleClick_inc_def Let_def)

lemma onDoubleClick_snap_scale:
  "scale (onDoubleClick_snap e s) = (if scale s = 4 then 1 else scale s * 2)"
  by (simp add: onDoubleClick_snap_def Let_def)

lemma double_clicks_inc:
  "scale s = 1 \<Longrightarrow>
   scale (run_inc (map DoubleClick es) s) = [1, 2, 4] ! (length es mod 3)"
proof (induction es rule: rev_induct)
  case Nil
  then show ?case by (simp add: run_inc_Nil)
next
  case (snoc e es)
  have m: "length es mod 3 = 0 \<or> length es mod 3 = 1 \<or> length es mod 3 = 2" by arith
  have step: "scale (run_inc (map DoubleClick (es @ [e])) s)
      = (if scale (run_inc (map DoubleClick es) s) = 4 then 1
         else scale (run_inc (map DoubleClick es) s) * 2)"
    by (simp add: run_inc_append run_inc_Cons run_inc_Nil onDoubleClick_inc_scale)
  from m show ?case
  proof (elim disjE)
    assume a: "length es mod 3 = 0"
    then have "Suc (length es) mod 3 = 1" by arith
    then show ?thesis using snoc a step by simp
  next
    assume a: "length es mod 3 = 1"
    then have "Suc (length es) mod 3 = 2" by arith
    then show ?thesis using snoc a step by simp
  next
    assume a: "length es mod 3 = 2"
    then have "Suc (length es) mod 3 = 0" by arith
    then show ?thesis using snoc a step by simp
  qed
qed

lemma double_clicks_snap:
  "scale s = 1 \<Longrightarrow>
   scale (run_snap (map DoubleClick es) s) = [1, 2, 4] ! (length es mod 3)"
proof (induction es rule: rev_induct)
  case Nil
  then show ?case by (simp add: run_snap_Nil)
next
  case (snoc e es)
  have m: "length es mod 3 = 0 \<or> length es mod 3 = 1 \<or> length es mod 3 = 2" by arith
  have step: "scale (run_snap (map DoubleClick (es @ [e])) s)
      = (if scale (run_snap (map DoubleClick es) s) = 4 then 1
         else scale (run_snap (map DoubleClick es) s) * 2)"
    by (simp add: run_snap_append run_snap_Cons run_snap_Nil onDoubleClick_snap_scale)
  from m show ?case
  proof (elim disjE)
    assume a: "length es mod 3 = 0"
    then have "Suc (length es) mod 3 = 1" by arith
    then show ?thesis using snoc a step by simp
  next
    assume a: "length es mod 3 = 1"
    then have "Suc (length es) mod 3 = 2" by arith
    then show ?thesis using snoc a step by simp
  next
    assume a: "length es mod 3 = 2"
    then have "Suc (length es) mod 3 = 0" by arith
    then show ?thesis using snoc a step by simp
  qed
qed

lemma handle_inc_scale:
  "scale s \<in> {1, 2, 4} \<Longrightarrow> scale (handle_inc s ev) \<in> {1, 2, 4}"
  by (cases ev) (auto simp: handler_defs Let_def)

lemma handle_snap_scale:
  "scale s \<in> {1, 2, 4} \<Longrightarrow> scale (handle_snap s ev) \<in> {1, 2, 4}"
  by (cases ev) (auto simp: handler_defs Let_def split: option.splits)

lemma run_inc_scale:
  "scale s \<in> {1, 2, 4} \<Longrightarrow> scale (run_inc evs s) \<in> {1, 2, 4}"
proof (induction evs arbitrary: s)
  case Nil
  then show ?case by (simp add: run_inc_Nil)
next
  case (Cons ev evs)
  show ?case using Cons.IH [OF handle_inc_scale [OF Cons.prems]] by (simp add: run_inc_Cons)
qed

lemma run_snap_scale:
  "scale s \<in> {1, 2, 4} \<Longrightarrow> scale (run_snap evs s) \<in> {1, 2, 4}"
proof (induction evs arbitrary: s)
  case Nil
  then show ?case by (simp add: run_snap_Nil)
next
  case (Cons ev evs)
  show ?case using Cons.IH [OF handle_snap_scale [OF Cons.prems]] by (simp add: run_snap_Cons)
qed

subsection \<open>What a run of moves keeps during a drag\<close>

lemma moves_Nil: "moves [] = []"
  by (simp add: moves_def)

lemma moves_Cons: "moves ((c, e) # ms) = MouseMove c e # moves ms"
  by (simp add: moves_def)

lemma snap_moves_keep:
  "isDragging s \<Longrightarrow> 1 < scale s \<Longrightarrow>
   isDragging (run_snap (moves ms) s) \<and> scale (run_snap (moves ms) s) = scale s \<and>
   dragStart (run_snap (moves ms) s) = dragStart s \<and>
   initialTranslate (run_snap (moves ms) s) = initialTranslate s"
proof (induction ms arbitrary: s)
  case Nil
  then show ?case by (simp add: moves_Nil run_snap_Nil)
next
  case (Cons m ms)
  obtain c e where m: "m = (c, e)" by (cases m)
  let ?s = "onMouseMove_snap c e s"
  have step: "isDragging ?s \<and> scale ?s = scale s \<and> dragStart ?s = dragStart s \<and>
      initialTranslate ?s = initialTranslate s"
    using Cons.prems by (simp add: onMouseMove_snap_def Let_def split: option.splits)
  then have "isDragging ?s" and "1 < scale ?s" using Cons.prems(2) by simp_all
  from Cons.IH [OF this] step show ?case
    by (simp add: m moves_Cons run_snap_Cons)
qed


lemma snap_drag:
  assumes "1 < scale s"
  shows "translation_snap
           (run_snap (MouseDown (Some r0) e0 # moves ms @ [MouseMove (Some r) e]) s)
         = (fst (translation_snap s) + fst (relative_to r e) - fst (relative_to r0 e0),
            snd (translation_snap s) + snd (relative_to r e) - snd (relative_to r0 e0))"
proof -
  let ?d = "onMouseDown_snap (Some r0) e0 s"
  have d: "isDragging ?d" "scale ?d = scale s" "translate ?d = translate s"
    "initialTranslate ?d = translate s"
    "dragStart ?d = \<lparr>pt_x = fst (relative_to r0 e0), pt_y = snd (relative_to r0 e0)\<rparr>"
    using assms by (simp_all add: onMouseDown_snap_def relative_to_def Let_def)
  let ?m = "run_snap (moves ms) ?d"
  have "isDragging ?d" and "1 < scale ?d" using d assms by simp_all
  from snap_moves_keep [OF this, of ms]
  have m: "isDragging ?m" "scale ?m = scale s"
    "dragStart ?m = \<lparr>pt_x = fst (relative_to r0 e0), pt_y = snd (relative_to r0 e0)\<rparr>"
    "initialTranslate ?m = translate s"
    using d by simp_all
  have "translation_snap (onMouseMove_snap (Some r) e ?m)
         = (fst (translation_snap s) + fst (relative_to r e) - fst (relative_to r0 e0),
            snd (translation_snap s) + snd (relative_to r e) - snd (relative_to r0 e0))"
    using m assms
    by (simp add: onMouseMove_snap_def translation_snap_def relative_to_def Let_def)
  then show ?thesis
    by (simp add: run_snap_Cons run_snap_append run_snap_Nil)
qed

lemma inc_moves_keep:
  "isDragging s \<Longrightarrow> 1 < scale s \<Longrightarrow>
   isDragging (run_inc (moves ms) s) \<and> scale (run_inc (moves ms) s) = scale s \<and>
   translateX (run_inc (moves ms) s) - pt_x (dragStart (run_inc (moves ms) s))
     = translateX s - pt_x (dragStart s) \<and>
   translateY (run_inc (moves ms) s) - pt_y (dragStart (run_inc (moves ms) s))
     = translateY s - pt_y (dragStart s)"
proof (induction ms arbitrary: s)
  case Nil
  then show ?case by (simp add: moves_Nil run_inc_Nil)
next
  case (Cons m ms)
  obtain c e where m: "m = (c, e)" by (cases m)
  let ?s = "onMouseMove_inc e s"
  have step: "isDragging ?s \<and> scale ?s = scale s \<and>
      translateX ?s - pt_x (dragStart ?s) = translateX s - pt_x (dragStart s) \<and>
      translateY ?s - pt_y (dragStart ?s) = translateY s - pt_y (dragStart s)"
    using Cons.prems by (simp add: onMouseMove_inc_def Let_def)
  then have "isDragging ?s" and "1 < scale ?s" using Cons.prems(2) by simp_all
  from Cons.IH [OF this] step show ?case
    by (simp add: m moves_Cons run_inc_Cons)
qed

lemma inc_drag:
  assumes "1 < scale s"
  shows "translation_inc (run_inc (MouseDown c0 e0 # moves ms @ [MouseMove c e]) s)
         = (fst (translation_inc s) + clientX e - clientX e0,
            snd (translation_inc s) + clientY e - clientY e0)"
proof -
  let ?d = "onMouseDown_inc e0 s"
  have d: "isDragging ?d" "scale ?d = scale s" "translateX ?d = translateX s"
    "translateY ?d = translateY s" "dragStart ?d = \<lparr>pt_x = clientX e0, pt_y = clientY e0\<rparr>"
    using assms by (simp_all add: onMouseDown_inc_def)
  let ?m = "run_inc (moves ms) ?d"
  have "isDragging ?d" and "1 < scale ?d" using d assms by simp_all
  from inc_moves_keep [OF this, of ms]
  have m: "isDragging ?m" "scale ?m = scale s"
    "translateX ?m - pt_x (dragStart ?m) = translateX s - clientX e0"
    "translateY ?m - pt_y (dragStart ?m) = translateY s - clientY e0"
    using d by simp_all
  have "translation_inc (onMouseMove_inc e ?m)
         = (fst (translation_inc s) + clientX e - clientX e0,
            snd (translation_inc s) + clientY e - clientY e0)"
    using m assms by (simp add: onMouseMove_inc_def translation_inc_def Let_def)
  then show ?thesis
    by (simp add: run_inc_Cons run_inc_append run_inc_Nil)
qed

subsection \<open>The two files in exact arithmetic with a render after each event\<close>

lemma exact_runs_agree:
  assumes "1 < scale s" and "scale t = scale s" and "translation_snap t = translation_inc s"
  shows "translation_snap (run_snap (MouseDown (Some r) e0 # map (MouseMove (Some r)) es) t)
         = translation_inc (run_inc (MouseDown (Some r) e0 # map (MouseMove (Some r)) es) s) \<and>
         translation_snap
           (run_snap (MouseDown (Some r) e0 # map (MouseMove (Some r)) es @ [MouseUp]) t)
         = translation_inc
             (run_inc (MouseDown (Some r) e0 # map (MouseMove (Some r)) es @ [MouseUp]) s)"
proof -
  have t: "1 < scale t" using assms by simp
  have drag: "translation_snap (run_snap (MouseDown (Some r) e0 # map (MouseMove (Some r)) es) t)
         = translation_inc (run_inc (MouseDown (Some r) e0 # map (MouseMove (Some r)) es) s)"
  proof (cases es rule: rev_cases)
    case Nil
    then show ?thesis
      using assms
      by (simp add: run_simps onMouseDown_snap_def onMouseDown_inc_def translation_snap_def
          translation_inc_def Let_def)
  next
    case (snoc es' e)
    have shape: "map (MouseMove (Some r)) es
        = moves (map (Pair (Some r)) es') @ [MouseMove (Some r) e]"
      by (simp add: snoc moves_def comp_def)
    show ?thesis
      unfolding shape
      using snap_drag [OF t, of r e0 "map (Pair (Some r)) es'" r e]
        inc_drag [OF assms(1), of "Some r" e0 "map (Pair (Some r)) es'" "Some r" e] assms(3)
      by (simp add: relative_to_def)
  qed
  have "run_snap (MouseDown (Some r) e0 # map (MouseMove (Some r)) es @ [MouseUp]) t
      = onMouseUp (run_snap (MouseDown (Some r) e0 # map (MouseMove (Some r)) es) t)"
    by (simp add: run_snap_def)
  moreover have "run_inc (MouseDown (Some r) e0 # map (MouseMove (Some r)) es @ [MouseUp]) s
      = onMouseUp (run_inc (MouseDown (Some r) e0 # map (MouseMove (Some r)) es) s)"
    by (simp add: run_inc_def)
  ultimately show ?thesis
    using drag by (simp add: translation_onMouseUp_snap translation_onMouseUp_inc)
qed

subsection \<open>Rounding\<close>

lemma round_even_of_int: "round_even (of_int m) = m"
  by (simp add: round_even_def)

lemma round_even_Ints: "y \<in> \<int> \<Longrightarrow> of_int (round_even y) = y"
  by (auto simp: Ints_def round_even_of_int)

lemma round_even_near:
  assumes "\<bar>y - of_int n\<bar> < 1 / 2"
  shows "round_even y = n"
proof -
  have both: "y - of_int n < 1 / 2 \<and> - (y - of_int n) < 1 / 2"
    using assms by (simp only: abs_less_iff)
  then have hi: "y - of_int n < 1 / 2" by (rule conjunct1)
  from both have lo: "- (1 / 2) < y - of_int n" by linarith
  show ?thesis
  proof (cases "of_int n \<le> y")
    case True
    have "y < of_int n + 1" using hi by linarith
    with True have f: "\<lfloor>y\<rfloor> = n" by (simp add: floor_unique)
    show ?thesis using f hi by (simp only: round_even_def Let_def if_True)
  next
    case False
    have m: "real_of_int (n - 1) = of_int n - 1" by simp
    have "of_int (n - 1) \<le> y" and "y < of_int (n - 1) + 1"
      unfolding m using lo False by linarith+
    then have f: "\<lfloor>y\<rfloor> = n - 1" by (simp add: floor_unique)
    have d: "1 / 2 < y - of_int (n - 1)" unfolding m using lo by linarith
    then have nd: "\<not> y - of_int (n - 1) < 1 / 2" by linarith
    show ?thesis using f d nd by (simp only: round_even_def Let_def if_True if_False)
  qed
qed

lemma fl_whole:
  assumes "x \<in> \<int>" and "\<bar>x\<bar> < 2 ^ 53"
  shows "fl x = x"
proof (cases "x = 0")
  case True
  then show ?thesis by (simp add: fl_def)
next
  case False
  obtain m :: int where m: "x = of_int m" using assms(1) by (auto simp: Ints_def)
  have "m \<noteq> 0" using False m by simp
  then have one: "1 \<le> \<bar>x\<bar>" using m by (simp flip: of_int_abs add: )
  define e where "e = \<lfloor>log 2 \<bar>x\<bar>\<rfloor>"
  have "0 \<le> log 2 \<bar>x\<bar>" using one by simp
  then have e0: "0 \<le> e" by (simp add: e_def)
  have "log 2 \<bar>x\<bar> < log 2 (2 ^ 53)" using assms(2) one by (intro log_less) auto
  moreover have "log 2 ((2::real) ^ 53) = 53" by (subst log_nat_power) simp_all
  ultimately have "log 2 \<bar>x\<bar> < 53" by (simp only:)
  then have e52: "e \<le> 52" unfolding e_def by (simp add: floor_le_iff)
  have emax: "max e (- 1022) = e" using e0 by simp
  define k where "k = nat (52 - e)"
  have ulp: "(2::real) powi (e - 52) = inverse (2 ^ k)"
    using e52 by (cases "e = 52") (simp_all add: power_int_def k_def power_one_over inverse_eq_divide)
  have "x / inverse (2 ^ k) = of_int (m * 2 ^ k)" by (simp add: m divide_inverse)
  then have "x / inverse (2 ^ k) \<in> \<int>" by (metis Ints_of_int)
  then have "of_int (round_even (x / inverse (2 ^ k))) = x / inverse (2 ^ k)"
    by (rule round_even_Ints)
  then show ?thesis
    using False by (simp add: fl_def Let_def e_def [symmetric] emax ulp)
qed

lemma fl_in_binade:
  assumes "2 powi e \<le> \<bar>x\<bar>" and "\<bar>x\<bar> < 2 powi (e + 1)" and "- 1022 \<le> e"
    and "\<bar>x / 2 powi (e - 52) - of_int n\<bar> < 1 / 2"
  shows "fl x = 2 powi (e - 52) * of_int n"
proof -
  have "0 < (2::real) powi e" by simp
  then have pos: "0 < \<bar>x\<bar>" using assms(1) by linarith
  have p1: "(2::real) powr of_int e = 2 powi e"
    by (rule powr_real_of_int') simp_all
  have p2: "(2::real) powr of_int (e + 1) = 2 powi (e + 1)"
    by (rule powr_real_of_int') simp_all
  have "\<lfloor>log 2 \<bar>x\<bar>\<rfloor> = e"
    using floor_log_eq_powr_iff [of "\<bar>x\<bar>" 2 e] pos assms(1,2) p1 p2 by simp
  then have "max \<lfloor>log 2 \<bar>x\<bar>\<rfloor> (- 1022) = e" using assms(3) by simp
  moreover have "x \<noteq> 0" using pos by simp
  ultimately show ?thesis
    using round_even_near [OF assms(4)] by (simp add: fl_def Let_def)
qed

lemma exact_id: "exact x = x"
  by (simp add: exact_def)


lemma fl_diff: "a \<in> \<int> \<Longrightarrow> b \<in> \<int> \<Longrightarrow> \<bar>a - b\<bar> < 2 ^ 53 \<Longrightarrow> fl (a - b) = a - b"
  by (simp add: fl_whole)

lemma fl_sum: "a \<in> \<int> \<Longrightarrow> b \<in> \<int> \<Longrightarrow> \<bar>a + b\<bar> < 2 ^ 53 \<Longrightarrow> fl (a + b) = a + b"
  by (simp add: fl_whole)

subsection \<open>Handlers after a render\<close>

lemma onMouseUp_closure_same: "onMouseUp_closure s s = onMouseUp s"
  by (simp add: onMouseUp_closure_def onMouseUp_def)

lemma onMouseLeave_closure_same: "onMouseLeave_closure s s = onMouseLeave s"
  by (simp add: onMouseLeave_closure_def onMouseLeave_def)

lemma onMouseDown_inc_closure_same: "onMouseDown_inc_closure s e s = onMouseDown_inc e s"
  by (simp add: onMouseDown_inc_closure_def onMouseDown_inc_def)

lemma onMouseMove_inc_closure_same: "onMouseMove_inc_closure exact s e s = onMouseMove_inc e s"
  by (simp add: onMouseMove_inc_closure_def onMouseMove_inc_def exact_def Let_def split: option.splits)

lemma onDoubleClick_inc_closure_same: "onDoubleClick_inc_closure exact s e s = onDoubleClick_inc e s"
  by (simp add: onDoubleClick_inc_closure_def onDoubleClick_inc_def exact_def Let_def split: option.splits)

lemma onMouseDown_snap_closure_same:
  "onMouseDown_snap_closure exact s container e s = onMouseDown_snap container e s"
  by (simp add: onMouseDown_snap_closure_def onMouseDown_snap_def exact_def Let_def split: option.splits)

lemma onMouseMove_snap_closure_same:
  "onMouseMove_snap_closure exact s container e s = onMouseMove_snap container e s"
  by (simp add: onMouseMove_snap_closure_def onMouseMove_snap_def exact_def Let_def split: option.splits)

lemma onDoubleClick_snap_closure_same:
  "onDoubleClick_snap_closure exact s e s = onDoubleClick_snap e s"
  by (simp add: onDoubleClick_snap_closure_def onDoubleClick_snap_def exact_def Let_def split: option.splits)

lemma deliver_inc_exact: "deliver_inc exact s ev s = handle_inc s ev"
  by (cases ev)
    (simp_all add: onMouseUp_closure_same onMouseLeave_closure_same onMouseDown_inc_closure_same
      onMouseMove_inc_closure_same onDoubleClick_inc_closure_same)

lemma deliver_snap_exact: "deliver_snap exact s ev s = handle_snap s ev"
  by (cases ev)
    (simp_all add: onMouseUp_closure_same onMouseLeave_closure_same onMouseDown_snap_closure_same
      onMouseMove_snap_closure_same onDoubleClick_snap_closure_same)

lemma play_inc_Nil: "play_inc rd [] w = w"
  by (simp add: play_inc_def)

lemma play_inc_Cons: "play_inc rd (a # acts) w = play_inc rd acts (act_inc rd w a)"
  by (simp add: play_inc_def)

lemma play_inc_append: "play_inc rd (acts @ acts') w = play_inc rd acts' (play_inc rd acts w)"
  by (simp add: play_inc_def)

lemma play_snap_Nil: "play_snap rd [] w = w"
  by (simp add: play_snap_def)

lemma play_snap_Cons: "play_snap rd (a # acts) w = play_snap rd acts (act_snap rd w a)"
  by (simp add: play_snap_def)

lemma play_snap_append: "play_snap rd (acts @ acts') w = play_snap rd acts' (play_snap rd acts w)"
  by (simp add: play_snap_def)

lemma rendered_Nil: "rendered [] = []"
  by (simp add: rendered_def)

lemma rendered_Cons: "rendered (ev # evs) = Deliver ev # Rerender # rendered evs"
  by (simp add: rendered_def)

lemma rendered_append: "rendered (evs @ evs') = rendered evs @ rendered evs'"
  by (simp add: rendered_def)

lemma play_inc_rendered:
  "play_inc rd (rendered evs) (mounted s) = mounted (foldl (\<lambda>s ev. deliver_inc rd s ev s) s evs)"
proof (induction evs arbitrary: s)
  case Nil
  show ?case by (simp add: rendered_Nil play_inc_Nil)
next
  case (Cons ev evs)
  have "act_inc rd (act_inc rd (mounted s) (Deliver ev)) Rerender = mounted (deliver_inc rd s ev s)"
    by (simp add: mounted_def)
  then show ?case using Cons.IH [of "deliver_inc rd s ev s"]
    by (simp add: rendered_Cons play_inc_Cons)
qed

lemma play_snap_rendered:
  "play_snap rd (rendered evs) (mounted s) = mounted (foldl (\<lambda>s ev. deliver_snap rd s ev s) s evs)"
proof (induction evs arbitrary: s)
  case Nil
  show ?case by (simp add: rendered_Nil play_snap_Nil)
next
  case (Cons ev evs)
  have "act_snap rd (act_snap rd (mounted s) (Deliver ev)) Rerender = mounted (deliver_snap rd s ev s)"
    by (simp add: mounted_def)
  then show ?case using Cons.IH [of "deliver_snap rd s ev s"]
    by (simp add: rendered_Cons play_snap_Cons)
qed

lemma play_inc_rendered_exact: "play_inc exact (rendered evs) (mounted s) = mounted (run_inc evs s)"
  by (simp add: play_inc_rendered deliver_inc_exact run_inc_def)

lemma play_snap_rendered_exact: "play_snap exact (rendered evs) (mounted s) = mounted (run_snap evs s)"
  by (simp add: play_snap_rendered deliver_snap_exact run_snap_def)

subsection \<open>Unfolding a sequence of actions\<close>

lemmas closure_defs =
  onMouseUp_closure_def onMouseLeave_closure_def onMouseDown_inc_closure_def
  onMouseMove_inc_closure_def onDoubleClick_inc_closure_def onMouseDown_snap_closure_def
  onMouseMove_snap_closure_def onDoubleClick_snap_closure_def

lemmas play_simps =
  play_inc_Cons play_inc_Nil play_snap_Cons play_snap_Nil act_inc.simps act_snap.simps
  deliver_inc.simps deliver_snap.simps mounted_def

lemma zoomed_inc_eq:
  "zoomed_inc = \<lparr> scale = 2, cursor = ''grab'', isDragging = False,
       dragStart = \<lparr>pt_x = 0, pt_y = 0\<rparr>, translateX = 0, translateY = 0 \<rparr>"
  by (simp add: run_simps onDoubleClick_inc_def initial_inc_def Let_def)

lemma zoomed_snap_eq:
  "zoomed_snap = \<lparr> scale = 2, cursor = ''grab'', isDragging = False,
       dragStart = \<lparr>pt_x = 0, pt_y = 0\<rparr>,
       translate = \<lparr>pt_x = 0, pt_y = 0\<rparr>, initialTranslate = \<lparr>pt_x = 0, pt_y = 0\<rparr> \<rparr>"
  by (simp add: run_simps onDoubleClick_snap_def initial_snap_def Let_def)

subsection \<open>Double arithmetic on whole numbers\<close>

lemma wholeD: "whole x \<Longrightarrow> x \<in> \<int> \<and> \<bar>x\<bar> \<le> 1125899906842624"
  by (simp add: whole_def)

lemma fl_diff_whole: "whole a \<Longrightarrow> whole b \<Longrightarrow> fl (a - b) = a - b"
  by (rule fl_diff) (auto dest!: wholeD)

lemma onMouseMove_inc_fl:
  assumes drag: "isDragging s" "1 < scale s" and e: "whole_event e"
    and start: "whole (pt_x (dragStart s))" "whole (pt_y (dragStart s))"
    and ox: "translateX s - pt_x (dragStart s) \<in> \<int>"
      "\<bar>translateX s - pt_x (dragStart s)\<bar> \<le> 2 ^ 51"
    and oy: "translateY s - pt_y (dragStart s) \<in> \<int>"
      "\<bar>translateY s - pt_y (dragStart s)\<bar> \<le> 2 ^ 51"
  shows "onMouseMove_inc_closure fl s e s = onMouseMove_inc e s"
proof -
  have ex: "whole (clientX e)" and ey: "whole (clientY e)" using e by (simp_all add: whole_event_def)
  have dx: "fl (clientX e - pt_x (dragStart s)) = clientX e - pt_x (dragStart s)"
    using ex start(1) by (rule fl_diff_whole)
  have dy: "fl (clientY e - pt_y (dragStart s)) = clientY e - pt_y (dragStart s)"
    using ey start(2) by (rule fl_diff_whole)
  have tx: "translateX s + (clientX e - pt_x (dragStart s))
      = (translateX s - pt_x (dragStart s)) + clientX e" by simp
  have ty: "translateY s + (clientY e - pt_y (dragStart s))
      = (translateY s - pt_y (dragStart s)) + clientY e" by simp
  have sx: "fl (translateX s + (clientX e - pt_x (dragStart s)))
      = translateX s + (clientX e - pt_x (dragStart s))"
    unfolding tx using ox wholeD [OF ex] by (intro fl_sum) auto
  have sy: "fl (translateY s + (clientY e - pt_y (dragStart s)))
      = translateY s + (clientY e - pt_y (dragStart s))"
    unfolding ty using oy wholeD [OF ey] by (intro fl_sum) auto
  show ?thesis
    by (simp add: onMouseMove_inc_closure_def onMouseMove_inc_def Let_def dx dy sx sy)
qed

lemma inc_moves_fl:
  assumes "isDragging s" "1 < scale s" and "\<forall>e \<in> set es. whole_event e"
    and "whole (pt_x (dragStart s))" "whole (pt_y (dragStart s))"
    and "translateX s - pt_x (dragStart s) \<in> \<int>"
      "\<bar>translateX s - pt_x (dragStart s)\<bar> \<le> 2 ^ 51"
    and "translateY s - pt_y (dragStart s) \<in> \<int>"
      "\<bar>translateY s - pt_y (dragStart s)\<bar> \<le> 2 ^ 51"
  shows "foldl (\<lambda>s ev. deliver_inc fl s ev s) s (map (MouseMove c) es)
         = run_inc (map (MouseMove c) es) s"
  using assms
proof (induction es arbitrary: s)
  case Nil
  show ?case by (simp add: run_inc_Nil)
next
  case (Cons e es)
  let ?s = "onMouseMove_inc e s"
  have e: "whole_event e" using Cons.prems(3) by simp
  have step: "onMouseMove_inc_closure fl s e s = ?s"
    using Cons.prems(1,2) e Cons.prems(4-9) by (rule onMouseMove_inc_fl)
  have ex: "whole (clientX e)" and ey: "whole (clientY e)" using e by (simp_all add: whole_event_def)
  have keep: "isDragging ?s" "1 < scale ?s"
    "pt_x (dragStart ?s) = clientX e" "pt_y (dragStart ?s) = clientY e"
    "translateX ?s - clientX e = translateX s - pt_x (dragStart s)"
    "translateY ?s - clientY e = translateY s - pt_y (dragStart s)"
    using Cons.prems(1,2) by (simp_all add: onMouseMove_inc_def Let_def)
  have "foldl (\<lambda>s ev. deliver_inc fl s ev s) ?s (map (MouseMove c) es)
         = run_inc (map (MouseMove c) es) ?s"
    using Cons.prems(3,6-9) ex ey by (intro Cons.IH) (simp_all add: keep)
  then show ?case by (simp add: step run_inc_Cons)
qed

lemma onMouseMove_snap_fl:
  assumes drag: "isDragging s" "1 < scale s" and e: "whole_event e" and r: "whole_rect r"
    and start: "pt_x (dragStart s) \<in> \<int>" "\<bar>pt_x (dragStart s)\<bar> \<le> 2 ^ 51"
      "pt_y (dragStart s) \<in> \<int>" "\<bar>pt_y (dragStart s)\<bar> \<le> 2 ^ 51"
    and init: "whole (pt_x (initialTranslate s))" "whole (pt_y (initialTranslate s))"
  shows "onMouseMove_snap_closure fl s (Some r) e s = onMouseMove_snap (Some r) e s"
proof -
  have ex: "whole (clientX e)" and ey: "whole (clientY e)" using e by (simp_all add: whole_event_def)
  have rx: "whole (rect_left r)" and ry: "whole (rect_top r)" using r by (simp_all add: whole_rect_def)
  have px: "fl (clientX e - rect_left r) = clientX e - rect_left r"
    using ex rx by (rule fl_diff_whole)
  have py: "fl (clientY e - rect_top r) = clientY e - rect_top r"
    using ey ry by (rule fl_diff_whole)
  have dx: "fl (clientX e - rect_left r - pt_x (dragStart s))
      = clientX e - rect_left r - pt_x (dragStart s)"
    using wholeD [OF ex] wholeD [OF rx] start(1,2) by (intro fl_diff) auto
  have dy: "fl (clientY e - rect_top r - pt_y (dragStart s))
      = clientY e - rect_top r - pt_y (dragStart s)"
    using wholeD [OF ey] wholeD [OF ry] start(3,4) by (intro fl_diff) auto
  have sx: "fl (pt_x (initialTranslate s) + (clientX e - rect_left r - pt_x (dragStart s)))
      = pt_x (initialTranslate s) + (clientX e - rect_left r - pt_x (dragStart s))"
    using wholeD [OF ex] wholeD [OF rx] start(1,2) wholeD [OF init(1)] by (intro fl_sum) auto
  have sy: "fl (pt_y (initialTranslate s) + (clientY e - rect_top r - pt_y (dragStart s)))
      = pt_y (initialTranslate s) + (clientY e - rect_top r - pt_y (dragStart s))"
    using wholeD [OF ey] wholeD [OF ry] start(3,4) wholeD [OF init(2)] by (intro fl_sum) auto
  show ?thesis
    by (simp add: onMouseMove_snap_closure_def onMouseMove_snap_def Let_def px py dx dy sx sy)
qed

lemma snap_moves_fl:
  assumes "isDragging s" "1 < scale s" and "\<forall>e \<in> set es. whole_event e" and "whole_rect r"
    and "pt_x (dragStart s) \<in> \<int>" "\<bar>pt_x (dragStart s)\<bar> \<le> 2 ^ 51"
      "pt_y (dragStart s) \<in> \<int>" "\<bar>pt_y (dragStart s)\<bar> \<le> 2 ^ 51"
    and "whole (pt_x (initialTranslate s))" "whole (pt_y (initialTranslate s))"
  shows "foldl (\<lambda>s ev. deliver_snap fl s ev s) s (map (MouseMove (Some r)) es)
         = run_snap (map (MouseMove (Some r)) es) s"
  using assms
proof (induction es arbitrary: s)
  case Nil
  show ?case by (simp add: run_snap_Nil)
next
  case (Cons e es)
  let ?s = "onMouseMove_snap (Some r) e s"
  have e: "whole_event e" using Cons.prems(3) by simp
  have step: "onMouseMove_snap_closure fl s (Some r) e s = ?s"
    using Cons.prems(1,2) e Cons.prems(4-10) by (rule onMouseMove_snap_fl)
  have keep: "isDragging ?s" "1 < scale ?s" "dragStart ?s = dragStart s"
    "initialTranslate ?s = initialTranslate s"
    using Cons.prems(1,2) by (simp_all add: onMouseMove_snap_def Let_def)
  have "foldl (\<lambda>s ev. deliver_snap fl s ev s) ?s (map (MouseMove (Some r)) es)
         = run_snap (map (MouseMove (Some r)) es) ?s"
    using Cons.prems(3-10) by (intro Cons.IH) (simp_all add: keep)
  then show ?case by (simp add: step run_snap_Cons)
qed


lemma inc_session_fl:
  assumes "1 < scale s" and "whole (translateX s)" "whole (translateY s)"
    and "whole_event e0" and "\<forall>e \<in> set es. whole_event e"
  shows "foldl (\<lambda>s ev. deliver_inc fl s ev s) s (MouseDown c0 e0 # map (MouseMove c) es)
         = run_inc (MouseDown c0 e0 # map (MouseMove c) es) s"
proof -
  let ?d = "onMouseDown_inc e0 s"
  have e0: "whole (clientX e0)" "whole (clientY e0)"
    using assms(4) by (simp_all add: whole_event_def)
  have d: "isDragging ?d" "1 < scale ?d" "pt_x (dragStart ?d) = clientX e0"
    "pt_y (dragStart ?d) = clientY e0" "translateX ?d = translateX s" "translateY ?d = translateY s"
    using assms(1) by (simp_all add: onMouseDown_inc_def)
  have "foldl (\<lambda>s ev. deliver_inc fl s ev s) ?d (map (MouseMove c) es)
         = run_inc (map (MouseMove c) es) ?d"
    using d(1,2) assms(5)
  proof (rule inc_moves_fl)
    show "whole (pt_x (dragStart ?d))" "whole (pt_y (dragStart ?d))" using e0 d by simp_all
    show "translateX ?d - pt_x (dragStart ?d) \<in> \<int>"
      "\<bar>translateX ?d - pt_x (dragStart ?d)\<bar> \<le> 2 ^ 51"
      using wholeD [OF e0(1)] wholeD [OF assms(2)] by (auto simp: d)
    show "translateY ?d - pt_y (dragStart ?d) \<in> \<int>"
      "\<bar>translateY ?d - pt_y (dragStart ?d)\<bar> \<le> 2 ^ 51"
      using wholeD [OF e0(2)] wholeD [OF assms(3)] by (auto simp: d)
  qed
  then show ?thesis
    by (simp add: run_inc_Cons onMouseDown_inc_closure_same)
qed

lemma snap_session_fl:
  assumes "1 < scale s" and "whole (pt_x (translate s))" "whole (pt_y (translate s))"
    and "whole_rect r" and "whole_event e0" and "\<forall>e \<in> set es. whole_event e"
  shows "foldl (\<lambda>s ev. deliver_snap fl s ev s) s (MouseDown (Some r) e0 # map (MouseMove (Some r)) es)
         = run_snap (MouseDown (Some r) e0 # map (MouseMove (Some r)) es) s"
proof -
  let ?d = "onMouseDown_snap (Some r) e0 s"
  have e0: "whole (clientX e0)" "whole (clientY e0)"
    using assms(5) by (simp_all add: whole_event_def)
  have r: "whole (rect_left r)" "whole (rect_top r)"
    using assms(4) by (simp_all add: whole_rect_def)
  have down: "onMouseDown_snap_closure fl s (Some r) e0 s = ?d"
    using fl_diff_whole [OF e0(1) r(1)] fl_diff_whole [OF e0(2) r(2)]
    by (simp add: onMouseDown_snap_closure_def onMouseDown_snap_def Let_def)
  have d: "isDragging ?d" "1 < scale ?d" "pt_x (dragStart ?d) = clientX e0 - rect_left r"
    "pt_y (dragStart ?d) = clientY e0 - rect_top r" "initialTranslate ?d = translate s"
    using assms(1) by (simp_all add: onMouseDown_snap_def Let_def)
  have "foldl (\<lambda>s ev. deliver_snap fl s ev s) ?d (map (MouseMove (Some r)) es)
         = run_snap (map (MouseMove (Some r)) es) ?d"
    using d(1,2) assms(6,4)
  proof (rule snap_moves_fl)
    show "pt_x (dragStart ?d) \<in> \<int>" "\<bar>pt_x (dragStart ?d)\<bar> \<le> 2 ^ 51"
      using wholeD [OF e0(1)] wholeD [OF r(1)] by (auto simp: d)
    show "pt_y (dragStart ?d) \<in> \<int>" "\<bar>pt_y (dragStart ?d)\<bar> \<le> 2 ^ 51"
      using wholeD [OF e0(2)] wholeD [OF r(2)] by (auto simp: d)
    show "whole (pt_x (initialTranslate ?d))" "whole (pt_y (initialTranslate ?d))"
      using assms(2,3) by (simp_all add: d)
  qed
  then show ?thesis
    by (simp add: run_snap_Cons down)
qed

lemma fl_runs_agree:
  assumes "1 < scale s" and "scale t = scale s" and "translation_snap t = translation_inc s"
    and "whole (translateX s)" "whole (translateY s)"
    and "whole_rect r" and "whole_event e0" and "\<forall>e \<in> set es. whole_event e"
  shows "translation_snap
           (cells (play_snap fl
              (rendered (MouseDown (Some r) e0 # map (MouseMove (Some r)) es)) (mounted t)))
         = translation_inc
             (cells (play_inc fl
                (rendered (MouseDown (Some r) e0 # map (MouseMove (Some r)) es)) (mounted s)))
         \<and>
         translation_snap
           (cells (play_snap fl
              (rendered (MouseDown (Some r) e0 # map (MouseMove (Some r)) es @ [MouseUp]))
              (mounted t)))
         = translation_inc
             (cells (play_inc fl
                (rendered (MouseDown (Some r) e0 # map (MouseMove (Some r)) es @ [MouseUp]))
                (mounted s)))"
proof -
  let ?evs = "MouseDown (Some r) e0 # map (MouseMove (Some r)) es"
  have t: "1 < scale t" "whole (pt_x (translate t))" "whole (pt_y (translate t))"
    using assms(1-5) by (simp_all add: translation_snap_def translation_inc_def)
  have inc: "foldl (\<lambda>s ev. deliver_inc fl s ev s) s ?evs = run_inc ?evs s"
    using assms(1,4,5,7,8) by (rule inc_session_fl)
  have snap: "foldl (\<lambda>s ev. deliver_snap fl s ev s) t ?evs = run_snap ?evs t"
    using t assms(6,7,8) by (rule snap_session_fl)
  have inc_up: "foldl (\<lambda>s ev. deliver_inc fl s ev s) s (?evs @ [MouseUp]) = run_inc (?evs @ [MouseUp]) s"
    unfolding foldl_append inc by (simp add: run_inc_append run_simps onMouseUp_closure_same)
  have snap_up: "foldl (\<lambda>s ev. deliver_snap fl s ev s) t (?evs @ [MouseUp]) = run_snap (?evs @ [MouseUp]) t"
    unfolding foldl_append snap by (simp add: run_snap_append run_simps onMouseUp_closure_same)
  have a: "cells (play_inc fl (rendered ?evs) (mounted s)) = run_inc ?evs s"
    by (simp only: play_inc_rendered inc) (simp add: mounted_def)
  have b: "cells (play_snap fl (rendered ?evs) (mounted t)) = run_snap ?evs t"
    by (simp only: play_snap_rendered snap) (simp add: mounted_def)
  have a': "cells (play_inc fl (rendered (?evs @ [MouseUp])) (mounted s)) = run_inc (?evs @ [MouseUp]) s"
    by (simp only: play_inc_rendered inc_up) (simp add: mounted_def)
  have b': "cells (play_snap fl (rendered (?evs @ [MouseUp])) (mounted t)) = run_snap (?evs @ [MouseUp]) t"
    by (simp only: play_snap_rendered snap_up) (simp add: mounted_def)
  have pre: "1 < scale s" "scale t = scale s" "translation_snap t = translation_inc s"
    using assms(1-3) .
  show ?thesis
    using exact_runs_agree [OF pre, of r e0 es]
    by (simp only: a b) (simp only: append_Cons [symmetric] a' b')
qed

subsection \<open>A drag of the snapshot file under any rounding and any rendering\<close>

lemma move_or_render_cases:
  "move_or_render a \<Longrightarrow> a = Rerender \<or> (\<exists>c e. a = Deliver (MouseMove c e))"
  by (cases a rule: move_or_render.cases) simp_all

lemma snap_closure_moves_keep:
  assumes "\<forall>a \<in> set acts. move_or_render a"
    and "isDragging (closure w)" "1 < scale (closure w)"
    and "isDragging (cells w)" "1 < scale (cells w)"
  shows "isDragging (closure (play_snap rd acts w)) \<and> 1 < scale (closure (play_snap rd acts w)) \<and>
         isDragging (cells (play_snap rd acts w)) \<and> 1 < scale (cells (play_snap rd acts w)) \<and>
         dragStart (cells (play_snap rd acts w)) = dragStart (cells w) \<and>
         initialTranslate (cells (play_snap rd acts w)) = initialTranslate (cells w)"
  using assms
proof (induction acts arbitrary: w)
  case Nil
  then show ?case by (simp add: play_snap_Nil)
next
  case (Cons a acts)
  let ?w = "act_snap rd w a"
  have "a = Rerender \<or> (\<exists>c e. a = Deliver (MouseMove c e))"
    using Cons.prems(1) by (simp add: move_or_render_cases)
  then have step: "isDragging (closure ?w) \<and> 1 < scale (closure ?w) \<and>
      isDragging (cells ?w) \<and> 1 < scale (cells ?w) \<and>
      dragStart (cells ?w) = dragStart (cells w) \<and>
      initialTranslate (cells ?w) = initialTranslate (cells w)"
    using Cons.prems(2-5)
    by (auto simp: onMouseMove_snap_closure_def Let_def split: option.splits)
  have "\<forall>a \<in> set acts. move_or_render a" using Cons.prems(1) by simp
  from Cons.IH [OF this, of ?w] step show ?case
    by (simp add: play_snap_Cons)
qed

lemma snap_closure_renders_keep:
  "cells (play_snap rd (replicate k Rerender) w) = cells w"
  by (induction k arbitrary: w) (simp_all add: play_snap_Nil play_snap_Cons)

lemma snap_closure_drag:
  assumes "1 < scale s" and "\<forall>a \<in> set acts. move_or_render a"
  shows "translation_snap
           (cells (play_snap rd
              (Deliver (MouseDown (Some r0) e0) # Rerender # acts
               @ Deliver (MouseMove (Some r) e) # replicate k Rerender @ [Deliver MouseUp])
              (mounted s)))
         = (rd (pt_x (translate s)
                + rd (rd (clientX e - rect_left r) - rd (clientX e0 - rect_left r0))),
            rd (pt_y (translate s)
                + rd (rd (clientY e - rect_top r) - rd (clientY e0 - rect_top r0))))"
proof -
  let ?w0 = "play_snap rd [Deliver (MouseDown (Some r0) e0), Rerender] (mounted s)"
  have w0: "isDragging (closure ?w0)" "1 < scale (closure ?w0)"
    "isDragging (cells ?w0)" "1 < scale (cells ?w0)"
    "dragStart (cells ?w0)
       = \<lparr>pt_x = rd (clientX e0 - rect_left r0), pt_y = rd (clientY e0 - rect_top r0)\<rparr>"
    "initialTranslate (cells ?w0) = translate s"
    using assms(1) by (simp_all add: play_simps onMouseDown_snap_closure_def Let_def)
  let ?w1 = "play_snap rd acts ?w0"
  from snap_closure_moves_keep [OF assms(2) w0(1-4), of rd]
  have w1: "isDragging (closure ?w1)" "1 < scale (closure ?w1)"
    "dragStart (cells ?w1)
       = \<lparr>pt_x = rd (clientX e0 - rect_left r0), pt_y = rd (clientY e0 - rect_top r0)\<rparr>"
    "initialTranslate (cells ?w1) = translate s"
    using w0(5,6) by simp_all
  let ?w2 = "act_snap rd ?w1 (Deliver (MouseMove (Some r) e))"
  have w2: "translation_snap (cells ?w2)
         = (rd (pt_x (translate s)
                + rd (rd (clientX e - rect_left r) - rd (clientX e0 - rect_left r0))),
            rd (pt_y (translate s)
                + rd (rd (clientY e - rect_top r) - rd (clientY e0 - rect_top r0))))"
    using w1 by (simp add: onMouseMove_snap_closure_def translation_snap_def Let_def)
  let ?w3 = "play_snap rd (replicate k Rerender) ?w2"
  have w3: "cells ?w3 = cells ?w2" by (rule snap_closure_renders_keep)
  have "play_snap rd
          (Deliver (MouseDown (Some r0) e0) # Rerender # acts
           @ Deliver (MouseMove (Some r) e) # replicate k Rerender @ [Deliver MouseUp])
          (mounted s)
        = act_snap rd ?w3 (Deliver MouseUp)"
    by (simp add: play_snap_def)
  moreover have "translation_snap (cells (act_snap rd ?w3 (Deliver MouseUp)))
      = translation_snap (cells ?w3)"
    by (simp add: onMouseUp_closure_def translation_snap_def)
  ultimately show ?thesis
    by (simp only: w3 w2)
qed

subsection \<open>Before the first double click\<close>




section \<open>Interaction controller: properties\<close>

text \<open>
  C5. While the scale is at most 1, a sequence of pointer-down, pointer-move, pointer-up
  and pointer-leave events, in any order and of any length, leaves the translation (and
  the scale) as it was, in both files: each handler is a no-op on the transform.
\<close>

theorem pan_disabled_until_zoomed:
  assumes "\<forall>ev \<in> set evs. pan_event ev"
  shows "(scale s \<le> 1 \<longrightarrow>
            translation_inc (run_inc evs s) = translation_inc s \<and>
            scale (run_inc evs s) = scale s) \<and>
         (scale t \<le> 1 \<longrightarrow>
            translation_snap (run_snap evs t) = translation_snap t \<and>
            scale (run_snap evs t) = scale t)"
  using pan_run_inc [OF assms, of s] pan_run_snap [OF assms, of t]
  by (simp add: translation_inc_def translation_snap_def)

text \<open>C5 at the sequence down, move, up on the freshly mounted widget (scale 1).\<close>

theorem pan_disabled_until_zoomed_witness:
  "translation_inc
     (run_inc [MouseDown (Some origin_rect) (pointer_at 100 100),
               MouseMove (Some origin_rect) (pointer_at 150 130),
               MouseUp] initial_inc) = (0, 0) \<and>
   translation_snap
     (run_snap [MouseDown (Some origin_rect) (pointer_at 100 100),
               MouseMove (Some origin_rect) (pointer_at 150 130),
               MouseUp] initial_snap) = (0, 0)"
  using pan_disabled_until_zoomed
    [of "[MouseDown (Some origin_rect) (pointer_at 100 100),
               MouseMove (Some origin_rect) (pointer_at 150 130),
               MouseUp]" initial_inc initial_snap]
  by (simp add: initial_inc_def initial_snap_def translation_inc_def translation_snap_def)

text \<open>
  C2. In any state, a double click at scale 4 sets the scale to 1 and the translation to
  (0, 0); at any other scale it doubles the scale and sets the translation to twice the
  old one minus the click position relative to the bounding box of the element. From
  scale 1 the scale after \<open>n\<close> double clicks is 1, 2, 4, 1, ... (never 8), and the
  translation is (0, 0) at every wrap. No sequence of events takes the scale of the
  mounted widget outside 1, 2 and 4. All of this holds in both files.
\<close>

theorem double_click_zoom_toggle:
  "(scale s = 4 \<longrightarrow>
      scale (onDoubleClick_inc e s) = 1 \<and> translation_inc (onDoubleClick_inc e s) = (0, 0)) \<and>
   (scale s \<noteq> 4 \<longrightarrow>
      scale (onDoubleClick_inc e s) = 2 * scale s \<and>
      translation_inc (onDoubleClick_inc e s)
        = (2 * fst (translation_inc s) - fst (relative_to (currentTarget_rect e) e),
           2 * snd (translation_inc s) - snd (relative_to (currentTarget_rect e) e))) \<and>
   (scale t = 4 \<longrightarrow>
      scale (onDoubleClick_snap e t) = 1 \<and> translation_snap (onDoubleClick_snap e t) = (0, 0)) \<and>
   (scale t \<noteq> 4 \<longrightarrow>
      scale (onDoubleClick_snap e t) = 2 * scale t \<and>
      translation_snap (onDoubleClick_snap e t)
        = (2 * fst (translation_snap t) - fst (relative_to (currentTarget_rect e) e),
           2 * snd (translation_snap t) - snd (relative_to (currentTarget_rect e) e))) \<and>
   (scale s = 1 \<longrightarrow>
      scale (run_inc (map DoubleClick es) s) = [1, 2, 4] ! (length es mod 3) \<and>
      scale (run_inc (map DoubleClick es) s) \<noteq> 8 \<and>
      (es \<noteq> [] \<and> length es mod 3 = 0 \<longrightarrow>
         translation_inc (run_inc (map DoubleClick es) s) = (0, 0))) \<and>
   (scale t = 1 \<longrightarrow>
      scale (run_snap (map DoubleClick es) t) = [1, 2, 4] ! (length es mod 3) \<and>
      scale (run_snap (map DoubleClick es) t) \<noteq> 8 \<and>
      (es \<noteq> [] \<and> length es mod 3 = 0 \<longrightarrow>
         translation_snap (run_snap (map DoubleClick es) t) = (0, 0))) \<and>
   scale (run_inc evs initial_inc) \<in> {1, 2, 4} \<and>
   scale (run_snap evs initial_snap) \<in> {1, 2, 4}"
proof -
  have one_inc: "(scale s = 4 \<longrightarrow>
      scale (onDoubleClick_inc e s) = 1 \<and> translation_inc (onDoubleClick_inc e s) = (0, 0)) \<and>
   (scale s \<noteq> 4 \<longrightarrow>
      scale (onDoubleClick_inc e s) = 2 * scale s \<and>
      translation_inc (onDoubleClick_inc e s)
        = (2 * fst (translation_inc s) - fst (relative_to (currentTarget_rect e) e),
           2 * snd (translation_inc s) - snd (relative_to (currentTarget_rect e) e)))"
    by (simp add: onDoubleClick_inc_def translation_inc_def relative_to_def Let_def)
  have one_snap: "(scale t = 4 \<longrightarrow>
      scale (onDoubleClick_snap e t) = 1 \<and> translation_snap (onDoubleClick_snap e t) = (0, 0)) \<and>
   (scale t \<noteq> 4 \<longrightarrow>
      scale (onDoubleClick_snap e t) = 2 * scale t \<and>
      translation_snap (onDoubleClick_snap e t)
        = (2 * fst (translation_snap t) - fst (relative_to (currentTarget_rect e) e),
           2 * snd (translation_snap t) - snd (relative_to (currentTarget_rect e) e)))"
    by (simp add: onDoubleClick_snap_def translation_snap_def relative_to_def Let_def)
  have wrap_inc: "translation_inc (run_inc (map DoubleClick es) s) = (0, 0)"
    if one: "scale s = 1" and ne: "es \<noteq> []" and len: "length es mod 3 = 0"
  proof -
    obtain es' e' where es: "es = es' @ [e']" using ne by (cases es rule: rev_cases) auto
    have "length es' mod 3 = 2" using len es by simp arith
    then have "scale (run_inc (map DoubleClick es') s) = 4"
      using double_clicks_inc [OF one, of es'] by simp
    then show ?thesis
      by (simp add: es run_inc_append run_inc_Cons run_inc_Nil onDoubleClick_inc_def
          translation_inc_def Let_def)
  qed
  have wrap_snap: "translation_snap (run_snap (map DoubleClick es) t) = (0, 0)"
    if one: "scale t = 1" and ne: "es \<noteq> []" and len: "length es mod 3 = 0"
  proof -
    obtain es' e' where es: "es = es' @ [e']" using ne by (cases es rule: rev_cases) auto
    have "length es' mod 3 = 2" using len es by simp arith
    then have "scale (run_snap (map DoubleClick es') t) = 4"
      using double_clicks_snap [OF one, of es'] by simp
    then show ?thesis
      by (simp add: es run_snap_append run_snap_Cons run_snap_Nil onDoubleClick_snap_def
          translation_snap_def Let_def)
  qed
  have not8: "[1, 2, 4] ! (n mod 3) \<noteq> (8::real)" for n :: nat
  proof -
    have "n mod 3 = 0 \<or> n mod 3 = 1 \<or> n mod 3 = 2" by arith
    then show ?thesis by auto
  qed
  have seq_inc: "scale s = 1 \<longrightarrow>
      scale (run_inc (map DoubleClick es) s) = [1, 2, 4] ! (length es mod 3) \<and>
      scale (run_inc (map DoubleClick es) s) \<noteq> 8 \<and>
      (es \<noteq> [] \<and> length es mod 3 = 0 \<longrightarrow>
         translation_inc (run_inc (map DoubleClick es) s) = (0, 0))"
    using double_clicks_inc [of s es] wrap_inc not8 [of "length es"] by simp
  have seq_snap: "scale t = 1 \<longrightarrow>
      scale (run_snap (map DoubleClick es) t) = [1, 2, 4] ! (length es mod 3) \<and>
      scale (run_snap (map DoubleClick es) t) \<noteq> 8 \<and>
      (es \<noteq> [] \<and> length es mod 3 = 0 \<longrightarrow>
         translation_snap (run_snap (map DoubleClick es) t) = (0, 0))"
    using double_clicks_snap [of t es] wrap_snap not8 [of "length es"] by simp
  have reach_inc: "scale (run_inc evs initial_inc) \<in> {1, 2, 4}"
    by (rule run_inc_scale) (simp add: initial_inc_def)
  have reach_snap: "scale (run_snap evs initial_snap) \<in> {1, 2, 4}"
    by (rule run_snap_scale) (simp add: initial_snap_def)
  from one_inc one_snap seq_inc seq_snap reach_inc reach_snap show ?thesis
    by (intro conjI) blast+
qed

text \<open>
  C2 on the freshly mounted widget: one double click at (30, 40) gives scale 2 and
  translation (-30, -40); two give scale 4; three give scale 1 and translation (0, 0).
\<close>

theorem double_click_zoom_toggle_witness:
  "scale (onDoubleClick_snap (pointer_at 30 40) initial_snap) = 2 \<and>
   translation_snap (onDoubleClick_snap (pointer_at 30 40) initial_snap) = (-30, -40) \<and>
   scale (run_snap (map DoubleClick [pointer_at 30 40, pointer_at 30 40]) initial_snap) = 4 \<and>
   scale (run_snap (map DoubleClick [pointer_at 30 40, pointer_at 30 40, pointer_at 30 40])
            initial_snap) = 1 \<and>
   translation_snap
     (run_snap (map DoubleClick [pointer_at 30 40, pointer_at 30 40, pointer_at 30 40])
        initial_snap) = (0, 0) \<and>
   scale (onDoubleClick_inc (pointer_at 30 40) initial_inc) = 2 \<and>
   translation_inc (onDoubleClick_inc (pointer_at 30 40) initial_inc) = (-30, -40) \<and>
   scale (run_inc (map DoubleClick [pointer_at 30 40, pointer_at 30 40]) initial_inc) = 4 \<and>
   scale (run_inc (map DoubleClick [pointer_at 30 40, pointer_at 30 40, pointer_at 30 40])
            initial_inc) = 1 \<and>
   translation_inc
     (run_inc (map DoubleClick [pointer_at 30 40, pointer_at 30 40, pointer_at 30 40])
        initial_inc) = (0, 0)"
  using double_click_zoom_toggle
      [of initial_inc "pointer_at 30 40" initial_snap
          "[pointer_at 30 40, pointer_at 30 40, pointer_at 30 40]" "[]"]
    double_click_zoom_toggle
      [of initial_inc "pointer_at 30 40" initial_snap "[pointer_at 30 40, pointer_at 30 40]" "[]"]
  by (simp add: initial_inc_def initial_snap_def run_simps onDoubleClick_inc_def
      onDoubleClick_snap_def translation_inc_def translation_snap_def Let_def)

text \<open>
  C1. In \<^verbatim>\<open>part_000\<close>, a drag session that starts with a measured pointer-down at
  scale above 1 and ends with a measured pointer-move followed by pointer-up leaves the
  translation at the snapshot taken at the start plus the last pointer position minus
  the first one (both relative to the container): the moves \<open>ms\<close> in between do not
  appear in the result, so replacing them by any other moves \<open>ms'\<close>, or by none, changes
  nothing; a session with no move leaves the translation as it was. The same holds
  with the arithmetic rounded by any \<open>rd\<close>, doubles included, and wherever the component
  renders between the moves (\<open>acts\<close> is any sequence of moves and renders after the
  render that follows pointer-down): the result is computed from the snapshot and the
  two positions alone. In the worked example (translation (0, 0), scale 2, container
  at the origin, down at (100, 100), moves to (150, 130) and (120, 90)) the translation
  is (50, 30) after the first move and (20, -10) at the end, not (70, 20), also in
  double arithmetic with both moves handled before the next render.
\<close>

theorem drag_session_snapshot_relative:
  "(1 < scale s \<longrightarrow>
      translation_snap
        (run_snap (MouseDown (Some r0) e0 # moves ms @ [MouseMove (Some r) e, MouseUp]) s)
        = (fst (translation_snap s) + fst (relative_to r e) - fst (relative_to r0 e0),
           snd (translation_snap s) + snd (relative_to r e) - snd (relative_to r0 e0)) \<and>
      translation_snap
        (run_snap (MouseDown (Some r0) e0 # moves ms' @ [MouseMove (Some r) e, MouseUp]) s)
        = translation_snap
            (run_snap (MouseDown (Some r0) e0 # moves ms @ [MouseMove (Some r) e, MouseUp]) s) \<and>
      translation_snap (run_snap [MouseDown (Some r0) e0, MouseUp] s) = translation_snap s) \<and>
   (1 < scale s \<and> (\<forall>a \<in> set acts. move_or_render a) \<longrightarrow>
      translation_snap
        (cells (play_snap rd
           (Deliver (MouseDown (Some r0) e0) # Rerender # acts
            @ Deliver (MouseMove (Some r) e) # replicate k Rerender @ [Deliver MouseUp])
           (mounted s)))
        = (rd (pt_x (translate s)
               + rd (rd (clientX e - rect_left r) - rd (clientX e0 - rect_left r0))),
           rd (pt_y (translate s)
               + rd (rd (clientY e - rect_top r) - rd (clientY e0 - rect_top r0))))) \<and>
   translation_snap
     (run_snap [MouseDown (Some origin_rect) (pointer_at 100 100),
                MouseMove (Some origin_rect) (pointer_at 150 130)]
        zoomed_snap) = (50, 30) \<and>
   translation_snap
     (run_snap [MouseDown (Some origin_rect) (pointer_at 100 100),
                MouseMove (Some origin_rect) (pointer_at 150 130),
                MouseMove (Some origin_rect) (pointer_at 120 90), MouseUp]
        zoomed_snap) = (20, -10) \<and>
   translation_snap
     (cells (play_snap fl (batched_drag @ [Deliver MouseUp]) (mounted zoomed_snap)))
     = (20, -10) \<and>
   translation_snap
     (cells (play_snap fl (batched_drag @ [Deliver MouseUp]) (mounted zoomed_snap)))
     \<noteq> (70, 20)"
proof -
  have snap_up: "translation_snap
        (run_snap (MouseDown (Some r0) e0 # moves ns @ [MouseMove (Some r) e, MouseUp]) s)
        = (fst (translation_snap s) + fst (relative_to r e) - fst (relative_to r0 e0),
           snd (translation_snap s) + snd (relative_to r e) - snd (relative_to r0 e0))"
    if z: "1 < scale s" for ns
  proof -
    have "run_snap (MouseDown (Some r0) e0 # moves ns @ [MouseMove (Some r) e, MouseUp]) s
          = onMouseUp (run_snap (MouseDown (Some r0) e0 # moves ns @ [MouseMove (Some r) e]) s)"
      by (simp add: run_snap_def)
    then show ?thesis
      using snap_drag [OF z, of r0 e0 ns r e] by (simp add: translation_onMouseUp_snap)
  qed
  have snap_none: "translation_snap (run_snap [MouseDown (Some r0) e0, MouseUp] s) = translation_snap s"
    if z: "1 < scale s"
    using z by (simp add: run_simps onMouseDown_snap_def onMouseUp_def translation_snap_def Let_def)
  have any_render: "translation_snap
        (cells (play_snap rd
           (Deliver (MouseDown (Some r0) e0) # Rerender # acts
            @ Deliver (MouseMove (Some r) e) # replicate k Rerender @ [Deliver MouseUp])
           (mounted s)))
        = (rd (pt_x (translate s)
               + rd (rd (clientX e - rect_left r) - rd (clientX e0 - rect_left r0))),
           rd (pt_y (translate s)
               + rd (rd (clientY e - rect_top r) - rd (clientY e0 - rect_top r0))))"
    if "1 < scale s" and "\<forall>a \<in> set acts. move_or_render a"
    using that by (rule snap_closure_drag)
  have ex1: "translation_snap
     (run_snap [MouseDown (Some origin_rect) (pointer_at 100 100),
                MouseMove (Some origin_rect) (pointer_at 150 130)]
        zoomed_snap) = (50, 30)"
    by (simp add: initial_snap_def onDoubleClick_snap_def run_simps onMouseDown_snap_def
        onMouseMove_snap_def translation_snap_def Let_def)
  have ex2: "translation_snap
     (run_snap [MouseDown (Some origin_rect) (pointer_at 100 100),
                MouseMove (Some origin_rect) (pointer_at 150 130),
                MouseMove (Some origin_rect) (pointer_at 120 90), MouseUp]
        zoomed_snap) = (20, -10)"
    by (simp add: initial_snap_def onDoubleClick_snap_def run_simps onMouseDown_snap_def
        onMouseMove_snap_def onMouseUp_def translation_snap_def Let_def)
  have ex3: "translation_snap
     (cells (play_snap fl (batched_drag @ [Deliver MouseUp]) (mounted zoomed_snap)))
     = (20, -10)"
    by (simp add: zoomed_snap_eq play_simps closure_defs translation_snap_def Let_def fl_whole)
  have ex4: "translation_snap
     (cells (play_snap fl (batched_drag @ [Deliver MouseUp]) (mounted zoomed_snap)))
     \<noteq> (70, 20)"
    by (simp only: ex3) simp
  show ?thesis
    using snap_up [of ms] snap_up [of ms'] snap_none any_render ex1 ex2 ex3 ex4
    by (intro conjI impI) simp_all
qed

text \<open>
  C1 at the worked example: with the intermediate move to (150, 130), without it, and
  in double arithmetic with the two moves handled in one render.
\<close>

theorem drag_session_snapshot_relative_witness:
  "1 < scale zoomed_snap \<and>
   translation_snap
     (run_snap (MouseDown (Some origin_rect) (pointer_at 100 100)
                # moves [(Some origin_rect, pointer_at 150 130)]
                @ [MouseMove (Some origin_rect) (pointer_at 120 90), MouseUp])
        zoomed_snap) = (20, -10) \<and>
   translation_snap
     (run_snap (MouseDown (Some origin_rect) (pointer_at 100 100)
                # moves []
                @ [MouseMove (Some origin_rect) (pointer_at 120 90), MouseUp])
        zoomed_snap) = (20, -10) \<and>
   move_or_render (Deliver (MouseMove (Some origin_rect) (pointer_at 150 130))) \<and>
   translation_snap
     (cells (play_snap fl
        (Deliver (MouseDown (Some origin_rect) (pointer_at 100 100)) # Rerender
         # [Deliver (MouseMove (Some origin_rect) (pointer_at 150 130))]
         @ Deliver (MouseMove (Some origin_rect) (pointer_at 120 90)) # replicate 1 Rerender
         @ [Deliver MouseUp])
        (mounted zoomed_snap))) = (20, -10)"
  using drag_session_snapshot_relative
    [of zoomed_snap origin_rect "pointer_at 100 100"
        "[(Some origin_rect, pointer_at 150 130)]" origin_rect "pointer_at 120 90" "[]"
        "[Deliver (MouseMove (Some origin_rect) (pointer_at 150 130))]" fl 1]
  by (simp add: zoomed_snap_eq translation_snap_def relative_to_def fl_whole)

text \<open>
  C9, amended. From states of the two files with the same scale above 1 and the same
  translation, a pointer-down followed by any sequence of pointer-moves, all measured
  against one fixed bounding box \<open>r\<close> and delivered in order, leaves the same translation
  in both, and so does the session closed by pointer-up, provided that the component
  renders after every event and that the starting translation, the position of the box
  and the pointer coordinates are whole numbers of magnitude at most \<open>2 ^ 50\<close>. The
  arithmetic is that of doubles.
\<close>

theorem pan_variants_agree_rendered:
  assumes "1 < scale s" and "scale t = scale s" and "translation_snap t = translation_inc s"
    and "whole (translateX s)" "whole (translateY s)"
    and "whole_rect r" and "whole_event e0" and "\<forall>e \<in> set es. whole_event e"
  shows "translation_snap
           (cells (play_snap fl
              (rendered (MouseDown (Some r) e0 # map (MouseMove (Some r)) es)) (mounted t)))
         = translation_inc
             (cells (play_inc fl
                (rendered (MouseDown (Some r) e0 # map (MouseMove (Some r)) es)) (mounted s)))
         \<and>
         translation_snap
           (cells (play_snap fl
              (rendered (MouseDown (Some r) e0 # map (MouseMove (Some r)) es @ [MouseUp]))
              (mounted t)))
         = translation_inc
             (cells (play_inc fl
                (rendered (MouseDown (Some r) e0 # map (MouseMove (Some r)) es @ [MouseUp]))
                (mounted s)))"
  using assms by (rule fl_runs_agree)

text \<open>
  C9, amended, at scale 2 with the container at (8, 16): down at (100, 100), moves to
  (150, 130) and (120, 90); both files end at (20, -10).
\<close>

theorem pan_variants_agree_rendered_witness:
  "whole_rect \<lparr>rect_left = 8, rect_top = 16\<rparr> \<and>
   whole_event (pointer_at 100 100) \<and> whole_event (pointer_at 150 130) \<and>
   whole_event (pointer_at 120 90) \<and>
   translation_snap
     (cells (play_snap fl
        (rendered (MouseDown (Some \<lparr>rect_left = 8, rect_top = 16\<rparr>) (pointer_at 100 100)
                   # map (MouseMove (Some \<lparr>rect_left = 8, rect_top = 16\<rparr>))
                       [pointer_at 150 130, pointer_at 120 90]))
        (mounted zoomed_snap))) = (20, - 10) \<and>
   translation_inc
     (cells (play_inc fl
        (rendered (MouseDown (Some \<lparr>rect_left = 8, rect_top = 16\<rparr>) (pointer_at 100 100)
                   # map (MouseMove (Some \<lparr>rect_left = 8, rect_top = 16\<rparr>))
                       [pointer_at 150 130, pointer_at 120 90]))
        (mounted zoomed_inc))) = (20, - 10)"
  using pan_variants_agree_rendered
    [of zoomed_inc zoomed_snap "\<lparr>rect_left = 8, rect_top = 16\<rparr>" "pointer_at 100 100"
        "[pointer_at 150 130, pointer_at 120 90]"]
  by (simp add: zoomed_inc_eq zoomed_snap_eq whole_def whole_event_def whole_rect_def
      rendered_Cons rendered_Nil play_simps closure_defs translation_snap_def
      translation_inc_def Let_def fl_whole)

text \<open>
  C9 as stated fails in two ways. When the two moves of the worked example are handled
  before the component renders again, \<^verbatim>\<open>index.tsx\<close> takes both steps from the
  \<open>dragStart\<close> of the same closure and ends at (70, 20), where \<^verbatim>\<open>part_000\<close> ends
  at (20, -10). And with a render after each event but the left edge of the container
  at 8.3, a drag from 100 to 150 ends at 50 in \<^verbatim>\<open>index.tsx\<close> and at
  49.999999999999986 in \<^verbatim>\<open>part_000\<close>, which rounds the two relative positions.
\<close>

theorem pan_variants_differ_counterexample:
  "translation_inc (cells (play_inc fl batched_drag (mounted zoomed_inc)))
     \<noteq> translation_snap (cells (play_snap fl batched_drag (mounted zoomed_snap))) \<and>
   translation_inc (cells (play_inc fl batched_drag (mounted zoomed_inc))) = (70, 20) \<and>
   translation_snap (cells (play_snap fl batched_drag (mounted zoomed_snap))) = (20, - 10) \<and>
   translation_inc (cells (play_inc fl drag_over_box_8_3 (mounted zoomed_inc)))
     \<noteq> translation_snap (cells (play_snap fl drag_over_box_8_3 (mounted zoomed_snap))) \<and>
   translation_inc (cells (play_inc fl drag_over_box_8_3 (mounted zoomed_inc))) = (50, 0) \<and>
   translation_snap (cells (play_snap fl drag_over_box_8_3 (mounted zoomed_snap)))
     = (3518437208883199 / 2 ^ 46, 0)"
proof -
  have fl_a: "fl (25811255364367155 / 281474976710656) = 6452813841091789 / 70368744177664"
    using fl_in_binade [of 6 "25811255364367155 / 281474976710656" 6452813841091789] by simp
  have fl_b: "fl (39885004199899955 / 281474976710656) = 2492812762493747 / 17592186044416"
    using fl_in_binade [of 7 "39885004199899955 / 281474976710656" 4985625524987494] by simp
  have fl_d: "fl (3518437208883199 / 70368744177664) = 3518437208883199 / 70368744177664"
    using fl_in_binade [of 5 "3518437208883199 / 70368744177664" 7036874417766398] by simp
  have batched_inc:
    "translation_inc (cells (play_inc fl batched_drag (mounted zoomed_inc))) = (70, 20)"
    by (simp add: zoomed_inc_eq play_simps closure_defs translation_inc_def Let_def fl_whole)
  have batched_snap:
    "translation_snap (cells (play_snap fl batched_drag (mounted zoomed_snap))) = (20, - 10)"
    by (simp add: zoomed_snap_eq play_simps closure_defs translation_snap_def Let_def fl_whole)
  have rounded_inc:
    "translation_inc (cells (play_inc fl drag_over_box_8_3 (mounted zoomed_inc))) = (50, 0)"
    by (simp add: zoomed_inc_eq rendered_Cons rendered_Nil play_simps closure_defs
        translation_inc_def Let_def fl_whole)
  have rounded_snap:
    "translation_snap (cells (play_snap fl drag_over_box_8_3 (mounted zoomed_snap)))
       = (3518437208883199 / 2 ^ 46, 0)"
    by (simp add: zoomed_snap_eq rendered_Cons rendered_Nil play_simps closure_defs
        translation_snap_def Let_def fl_whole fl_a fl_b fl_d)
  have "((70::real), (20::real)) \<noteq> (20, - 10)" by simp
  moreover have "((50::real), (0::real)) \<noteq> (3518437208883199 / 2 ^ 46, 0)" by simp
  ultimately show ?thesis
    by (simp only: batched_inc batched_snap rounded_inc rounded_snap) simp
qed



end
